theory Spec2Isabelle
  imports Main
begin

section \<open>Media downloader (index.js)\<close>

text \<open>
  The script reads \<^verbatim>\<open>data/messages.json\<close>, quotes numeric \<^verbatim>\<open>ID\<close> values in the raw text,
  parses the text as JSON and downloads every attachment URL of every message into
  \<^verbatim>\<open>downloads/\<close>, one after the other.

  JavaScript strings are modelled as \<^typ>\<open>string\<close>; a \<^typ>\<open>char\<close> stands for one code unit
  in the range U+0000 .. U+00FF. The file system, the console, the global flag and the
  counters are threaded through as explicit state. The answers of the network and of the
  URL parser and the arrival of SIGINT are read from an environment record. A run of the
  loop either goes on or ends the process: by the handler of SIGINT, by an uncaught
  exception, or by waiting for ever.
\<close>

subsection \<open>Decimal numerals\<close>

definition digit_char :: "nat \<Rightarrow> char" where
  "digit_char d = ''0123456789'' ! (d mod 10)"

text \<open>The decimal rendering of a non-negative integer in a template literal.\<close>

function show_nat :: "nat \<Rightarrow> string" where
  "show_nat n = (if n < 10 then [digit_char n] else show_nat (n div 10) @ [digit_char (n mod 10)])"
  by pat_completeness auto
termination
  by (relation "measure id") auto

declare show_nat.simps [simp del]



subsection \<open>String and path helpers\<close>

text \<open>
  White space as \<^verbatim>\<open>String.prototype.trim\<close> and the regular expression class \<^verbatim>\<open>\s\<close> see it,
  among the code units of the model: TAB, LF, VT, FF, CR, SPACE and NBSP.
\<close>

definition is_space :: "char \<Rightarrow> bool" where
  "is_space c = (c \<in> set [CHR 0x09, CHR 0x0A, CHR 0x0B, CHR 0x0C, CHR 0x0D, CHR 0x20, CHR 0xA0])"

definition is_digit :: "char \<Rightarrow> bool" where
  "is_digit c = (c \<in> set ''0123456789'')"

definition trim :: "string \<Rightarrow> string" where
  "trim s = rev (dropWhile is_space (rev (dropWhile is_space s)))"

text \<open>\<^verbatim>\<open>s.split(c)\<close> for a separator of one character: the empty string splits into one empty piece.\<close>

primrec split_char :: "char \<Rightarrow> string \<Rightarrow> string list" where
  "split_char c [] = [[]]"
| "split_char c (x # xs) =
     (if x = c then [] # split_char c xs
      else (case split_char c xs of [] \<Rightarrow> [[x]] | t # ts \<Rightarrow> (x # t) # ts))"

primrec join_with :: "string \<Rightarrow> string list \<Rightarrow> string" where
  "join_with sep [] = []"
| "join_with sep (x # xs) = (if xs = [] then x else x @ sep @ join_with sep xs)"

text \<open>
  Node's POSIX \<^verbatim>\<open>path.basename\<close> (without a suffix argument): trailing slashes are dropped,
  then the part after the last slash is returned.
\<close>

definition basename :: "string \<Rightarrow> string" where
  "basename p =
     rev (takeWhile (\<lambda>c. c \<noteq> CHR ''/'') (dropWhile (\<lambda>c. c = CHR ''/'') (rev p)))"

text \<open>
  Node's POSIX \<^verbatim>\<open>path.extname\<close>: within the last segment of the path, the text from the last
  dot to the end; empty when the segment has no dot, when its only dot is its first
  character, and when the segment is \<^verbatim>\<open>..\<close>.
\<close>

definition extname :: "string \<Rightarrow> string" where
  "extname p =
     (let b = basename p;
          suffix = takeWhile (\<lambda>c. c \<noteq> CHR ''.'') (rev b);
          stem = drop (Suc (length suffix)) (rev b)
      in if CHR ''.'' \<notin> set b \<or> stem = [] \<or> b = ''..'' then []
         else CHR ''.'' # rev suffix)"

text \<open>
  Node's POSIX \<^verbatim>\<open>path.normalize\<close> and \<^verbatim>\<open>path.join\<close> of two parts. \<open>norm_segs\<close> walks over the
  segments with the segments kept so far (last first): empty segments and \<^verbatim>\<open>.\<close> are
  dropped, \<^verbatim>\<open>..\<close> removes the segment before it, or stays when the path is relative and there
  is nothing left to remove.
\<close>

fun norm_segs :: "bool \<Rightarrow> string list \<Rightarrow> string list \<Rightarrow> string list" where
  "norm_segs isAbsolute acc [] = rev acc"
| "norm_segs isAbsolute acc (g # gs) =
     (if g = [] \<or> g = ''.'' then norm_segs isAbsolute acc gs
      else if g = ''..'' then
        (case acc of
           [] \<Rightarrow> norm_segs isAbsolute (if isAbsolute then [] else [''..'']) gs
         | a # as \<Rightarrow>
             if a = ''..'' then norm_segs isAbsolute (''..'' # acc) gs
             else norm_segs isAbsolute as gs)
      else norm_segs isAbsolute (g # acc) gs)"

definition normalize :: "string \<Rightarrow> string" where
  "normalize p =
     (if p = [] then ''.''
      else
        (let isAbsolute = (hd p = CHR ''/'');
             trailingSeparator = (last p = CHR ''/'');
             q = join_with ''/'' (norm_segs isAbsolute [] (split_char CHR ''/'' p))
         in if q = [] then (if isAbsolute then ''/'' else if trailingSeparator then ''./'' else ''.'')
            else (if isAbsolute then ''/'' else []) @ q @ (if trailingSeparator then ''/'' else [])))"

definition path_join :: "string \<Rightarrow> string \<Rightarrow> string" where
  "path_join a b =
     (let joined = (if a = [] then b else if b = [] then a else a @ ''/'' @ b)
      in if joined = [] then ''.'' else normalize joined)"

subsection \<open>JSON.parse\<close>

text \<open>
  The value that \<^verbatim>\<open>JSON.parse\<close> returns. A number keeps the text of its literal: its
  conversion to a double is not modelled. An object keeps its members in the order of the
  text; a property read takes the last member with that key.
\<close>

datatype json =
    JNull
  | JBool bool
  | JNum string
  | JStr string
  | JArr "json list"
  | JObj "(string \<times> json) list"

datatype error =
    Error string
  | SyntaxError
  | SystemError string
  | Unmodelled

datatype token =
    LBrace | RBrace | LBracket | RBracket | Colon | Comma
  | TStr string
  | TVal json

definition is_json_ws :: "char \<Rightarrow> bool" where
  "is_json_ws c = (c \<in> set [CHR 0x20, CHR 0x09, CHR 0x0A, CHR 0x0D])"

definition hex_val :: "char \<Rightarrow> nat option" where
  "hex_val c =
     (if is_digit c then Some (of_char c - 48)
      else if c \<in> set ''abcdef'' then Some (of_char c - 87)
      else if c \<in> set ''ABCDEF'' then Some (of_char c - 55)
      else None)"

definition unescape :: "char \<Rightarrow> char option" where
  "unescape c =
     (if c = CHR 0x22 \<or> c = CHR 0x5C \<or> c = CHR ''/'' then Some c
      else if c = CHR ''b'' then Some (CHR 0x08)
      else if c = CHR ''f'' then Some (CHR 0x0C)
      else if c = CHR ''n'' then Some (CHR 0x0A)
      else if c = CHR ''r'' then Some (CHR 0x0D)
      else if c = CHR ''t'' then Some (CHR 0x09)
      else None)"

definition cons_result :: "char \<Rightarrow> error + (string \<times> string) \<Rightarrow> error + (string \<times> string)" where
  "cons_result c r = (case r of Inl err \<Rightarrow> Inl err | Inr (s, rest) \<Rightarrow> Inr (c # s, rest))"

text \<open>
  The string literal whose opening quote has just been read: the decoded string and the
  text after the closing quote. An escape \<^verbatim>\<open>\uXXXX\<close> above U+00FF has no \<^typ>\<open>char\<close> and is
  answered with \<open>Unmodelled\<close>.
\<close>

definition hex4 :: "string \<Rightarrow> nat option" where
  "hex4 hs =
     (case map hex_val hs of
        [Some h3, Some h2, Some h1, Some h0] \<Rightarrow> Some (((h3 * 16 + h2) * 16 + h1) * 16 + h0)
      | _ \<Rightarrow> None)"

function parse_string :: "string \<Rightarrow> error + (string \<times> string)" where
  "parse_string [] = Inl SyntaxError"
| "parse_string (c # cs) =
     (if c = CHR 0x22 then Inr ([], cs)
      else if c = CHR 0x5C then
        (case cs of
           [] \<Rightarrow> Inl SyntaxError
         | x # r \<Rightarrow>
             if x = CHR ''u'' then
               (case hex4 (take 4 r) of
                  None \<Rightarrow> Inl SyntaxError
                | Some n \<Rightarrow>
                    if n < 256 then cons_result (char_of n) (parse_string (drop 4 r))
                    else Inl Unmodelled)
             else (case unescape x of
                     None \<Rightarrow> Inl SyntaxError
                   | Some y \<Rightarrow> cons_result y (parse_string r)))
      else if (of_char c :: nat) < 32 then Inl SyntaxError
      else cons_result c (parse_string cs))"
  by pat_completeness auto
termination
  by (relation "measure length") auto

text \<open>
  The longest prefix that is a JSON number: an optional minus sign, \<^verbatim>\<open>0\<close> or digits that do
  not start with \<^verbatim>\<open>0\<close>, an optional fraction, an optional exponent.
\<close>

definition int_part :: "string \<Rightarrow> string" where
  "int_part r =
     (case r of [] \<Rightarrow> []
      | d # r' \<Rightarrow> if d = CHR ''0'' then ''0'' else takeWhile is_digit r)"

definition frac_part :: "string \<Rightarrow> string" where
  "frac_part r =
     (case r of [] \<Rightarrow> []
      | d # r' \<Rightarrow> if d = CHR ''.'' then d # takeWhile is_digit r' else [])"

definition exp_part :: "string \<Rightarrow> string" where
  "exp_part r =
     (case r of [] \<Rightarrow> []
      | d # r' \<Rightarrow>
          if d = CHR ''e'' \<or> d = CHR ''E'' then
            (let sg = (case r' of [] \<Rightarrow> []
                       | x # r'' \<Rightarrow> if x = CHR ''+'' \<or> x = CHR ''-'' then [x] else [])
             in d # sg @ takeWhile is_digit (drop (length sg) r'))
          else [])"

definition parse_number :: "string \<Rightarrow> error + (string \<times> string)" where
  "parse_number cs =
     (let sign = (if cs \<noteq> [] \<and> hd cs = CHR ''-'' then ''-'' else []);
          r0 = drop (length sign) cs;
          ip = int_part r0;
          r1 = drop (length ip) r0;
          fp = frac_part r1;
          r2 = drop (length fp) r1;
          ep = exp_part r2;
          r3 = drop (length ep) r2
      in if ip = [] \<or> fp = ''.'' \<or> (ep \<noteq> [] \<and> \<not> is_digit (last ep))
         then Inl SyntaxError
         else Inr (sign @ ip @ fp @ ep, r3))"

definition tok :: "token \<Rightarrow> error + token list \<Rightarrow> error + token list" where
  "tok t r = (case r of Inl err \<Rightarrow> Inl err | Inr ts \<Rightarrow> Inr (t # ts))"

lemma cons_result_Inr:
  "cons_result c r = Inr (s, rest) \<Longrightarrow> \<exists>s'. r = Inr (s', rest)"
  by (cases r) (auto simp: cons_result_def)

lemma parse_string_shorter: "parse_string cs = Inr (s, r) \<Longrightarrow> length r < length cs"
proof (induction "length cs" arbitrary: cs s rule: less_induct)
  case less
  show ?case
  proof (cases cs)
    case Nil
    with less.prems show ?thesis by simp
  next
    case (Cons c cs')
    note cs = Cons
    consider (quote) "c = CHR 0x22"
      | (esc) "c \<noteq> CHR 0x22" "c = CHR 0x5C"
      | (plain) "c \<noteq> CHR 0x22" "c \<noteq> CHR 0x5C"
      by blast
    then show ?thesis
    proof cases
      case quote
      with less.prems cs show ?thesis by simp
    next
      case plain
      with less.prems cs have "cons_result c (parse_string cs') = Inr (s, r)"
        by (simp split: if_splits)
      then obtain s' where "parse_string cs' = Inr (s', r)"
        using cons_result_Inr by blast
      with less.hyps [of cs' s'] cs show ?thesis by simp
    next
      case esc
      show ?thesis
      proof (cases cs')
        case Nil
        with less.prems cs esc show ?thesis by simp
      next
        case (Cons x t)
        show ?thesis
        proof (cases "x = CHR ''u''")
          case True
          with less.prems cs esc Cons obtain n :: nat where
            "cons_result (char_of n) (parse_string (drop 4 t)) = Inr (s, r)"
            by (auto split: option.splits if_splits)
          then obtain s' where ps: "parse_string (drop 4 t) = Inr (s', r)"
            using cons_result_Inr by blast
          have "length (drop 4 t) < length cs" by (simp add: cs Cons)
          then have "length r < length (drop 4 t)" using ps by (rule less.hyps)
          then show ?thesis by (simp add: cs Cons)
        next
          case False
          with less.prems cs esc Cons obtain y where
            "cons_result y (parse_string t) = Inr (s, r)"
            by (auto split: option.splits)
          then obtain s' where "parse_string t = Inr (s', r)"
            using cons_result_Inr by blast
          with less.hyps [of t s'] cs Cons show ?thesis by simp
        qed
      qed
    qed
  qed
qed

lemma int_part_length: "length (int_part r) \<le> length r"
  by (cases r) (simp_all add: int_part_def length_takeWhile_le le_SucI)

lemma parse_number_shorter:
  assumes "parse_number cs = Inr (n, r)"
  shows "length r < length cs"
proof -
  define r0 where "r0 = drop (length (if cs \<noteq> [] \<and> hd cs = CHR ''-'' then ''-'' else [])) cs"
  define r1 where "r1 = drop (length (int_part r0)) r0"
  define r2 where "r2 = drop (length (frac_part r1)) r1"
  from assms have ne: "int_part r0 \<noteq> []" and r: "r = drop (length (exp_part r2)) r2"
    unfolding parse_number_def Let_def r0_def r1_def r2_def
    by (auto split: if_splits)
  have "length r \<le> length r2" by (simp add: r)
  also have "\<dots> \<le> length r1" by (simp add: r2_def)
  also have "\<dots> = length r0 - length (int_part r0)" by (simp add: r1_def)
  also have "\<dots> < length r0"
    using ne int_part_length [of r0] by (cases "int_part r0") auto
  also have "\<dots> \<le> length cs" by (simp add: r0_def)
  finally show ?thesis .
qed

lemma lex_next: "(cs, c # cs) \<in> measure length"
  by simp

lemma lex_drop: "(drop n cs, c # cs) \<in> measure length"
  by simp

lemma lex_after_string: "parse_string cs = Inr b \<Longrightarrow> (x, y) = b \<Longrightarrow> (y, c # cs) \<in> measure length"
  using parse_string_shorter [of cs x y] by auto

lemma lex_after_number:
  "parse_number (c # cs) = Inr b \<Longrightarrow> (x, y) = b \<Longrightarrow> (y, c # cs) \<in> measure length"
  using parse_number_shorter [of "c # cs" x y] by auto

function lex :: "string \<Rightarrow> error + token list" where
  "lex [] = Inr []"
| "lex (c # cs) =
     (if is_json_ws c then lex cs
      else if c = CHR ''{'' then tok LBrace (lex cs)
      else if c = CHR ''}'' then tok RBrace (lex cs)
      else if c = CHR ''['' then tok LBracket (lex cs)
      else if c = CHR '']'' then tok RBracket (lex cs)
      else if c = CHR '':'' then tok Colon (lex cs)
      else if c = CHR '','' then tok Comma (lex cs)
      else if c = CHR 0x22 then
        (case parse_string cs of
           Inl err \<Rightarrow> Inl err
         | Inr (s, r) \<Rightarrow> tok (TStr s) (lex r))
      else if c = CHR ''-'' \<or> is_digit c then
        (case parse_number (c # cs) of
           Inl err \<Rightarrow> Inl err
         | Inr (n, r) \<Rightarrow> tok (TVal (JNum n)) (lex r))
      else if take 4 (c # cs) = ''true'' then tok (TVal (JBool True)) (lex (drop 3 cs))
      else if take 5 (c # cs) = ''false'' then tok (TVal (JBool False)) (lex (drop 4 cs))
      else if take 4 (c # cs) = ''null'' then tok (TVal JNull) (lex (drop 3 cs))
      else Inl SyntaxError)"
  by pat_completeness auto
termination
  apply (relation "measure length")
  apply (rule wf_measure)
  apply (rule lex_next)+
  apply (rule lex_after_string, assumption, assumption)
  apply (rule lex_after_number, assumption, assumption)
  apply (rule lex_drop)+
  done

datatype frame =
    FArr "json list"
  | FObj "(string \<times> json) list"
  | FKey "(string \<times> json) list" string

datatype mode = MValue | MFirst | MAfter | MKey | MColon

datatype config = Running mode "frame list" | Done json

text \<open>
  The grammar over the tokens, as a pushdown automaton. The stack holds the arrays and
  objects that are open, innermost first: \<open>FArr vs\<close> an array with the elements \<open>vs\<close> so
  far, \<open>FObj kvs\<close> an object with the members \<open>kvs\<close> so far, \<open>FKey kvs k\<close> an object whose
  key \<open>k\<close> waits for its value. The mode says what may come next: a value (\<open>MValue\<close>), a
  first element or member or the closing bracket (\<open>MFirst\<close>), a comma or the closing bracket
  (\<open>MAfter\<close>), a key (\<open>MKey\<close>), a colon (\<open>MColon\<close>).
\<close>

fun deliver :: "json \<Rightarrow> frame list \<Rightarrow> config option" where
  "deliver v [] = Some (Done v)"
| "deliver v (FArr vs # st) = Some (Running MAfter (FArr (vs @ [v]) # st))"
| "deliver v (FKey kvs k # st) = Some (Running MAfter (FObj (kvs @ [(k, v)]) # st))"
| "deliver v (FObj kvs # st) = None"

fun value_start :: "token \<Rightarrow> frame list \<Rightarrow> config option" where
  "value_start (TStr s) st = deliver (JStr s) st"
| "value_start (TVal v) st = deliver v st"
| "value_start LBracket st = Some (Running MFirst (FArr [] # st))"
| "value_start LBrace st = Some (Running MFirst (FObj [] # st))"
| "value_start t st = None"

fun key_start :: "token \<Rightarrow> (string \<times> json) list \<Rightarrow> frame list \<Rightarrow> config option" where
  "key_start (TStr k) kvs st = Some (Running MColon (FKey kvs k # st))"
| "key_start t kvs st = None"

fun step :: "config \<Rightarrow> token \<Rightarrow> config option" where
  "step (Done v) t = None"
| "step (Running MValue st) t = value_start t st"
| "step (Running MFirst (FArr vs # st)) t =
     (if t = RBracket then deliver (JArr vs) st else value_start t (FArr vs # st))"
| "step (Running MFirst (FObj kvs # st)) t =
     (if t = RBrace then deliver (JObj kvs) st else key_start t kvs st)"
| "step (Running MAfter (FArr vs # st)) t =
     (if t = Comma then Some (Running MValue (FArr vs # st))
      else if t = RBracket then deliver (JArr vs) st
      else None)"
| "step (Running MAfter (FObj kvs # st)) t =
     (if t = Comma then Some (Running MKey (FObj kvs # st))
      else if t = RBrace then deliver (JObj kvs) st
      else None)"
| "step (Running MKey (FObj kvs # st)) t = key_start t kvs st"
| "step (Running MColon st) t = (if t = Colon then Some (Running MValue st) else None)"
| "step (Running m st) t = None"

fun run_tokens :: "config \<Rightarrow> token list \<Rightarrow> config option" where
  "run_tokens cfg [] = Some cfg"
| "run_tokens cfg (t # ts) = (case step cfg t of None \<Rightarrow> None | Some cfg' \<Rightarrow> run_tokens cfg' ts)"

declare parse_string.simps [simp del]

declare lex.simps [simp del]

definition JSON_parse :: "string \<Rightarrow> error + json" where
  "JSON_parse text =
     (case lex text of
        Inl err \<Rightarrow> Inl err
      | Inr ts \<Rightarrow>
          (case run_tokens (Running MValue []) ts of
             Some (Done v) \<Rightarrow> Inr v
           | _ \<Rightarrow> Inl SyntaxError))"

subsection \<open>The pass over the raw text\<close>

text \<open>
  One attempt of the regular expression \<^verbatim>\<open>/"ID":\s*(\d+)/\<close> at the start of a text: the digits
  of the group and the text after the match. White space and digits are disjoint, so the
  greedy \<^verbatim>\<open>\s*\<close> never has to give a character back.
\<close>

definition match_ID :: "string \<Rightarrow> (string \<times> string) option" where
  "match_ID cs =
     (if take 5 cs = ''\"ID\":'' then
        (let r = dropWhile is_space (drop 5 cs);
             ds = takeWhile is_digit r
         in if ds = [] then None else Some (ds, dropWhile is_digit r))
      else None)"

lemma match_ID_shorter: "match_ID cs = Some (ds, rest) \<Longrightarrow> length rest < length cs"
proof -
  assume m: "match_ID cs = Some (ds, rest)"
  then have t5: "take 5 cs = ''\"ID\":''"
    by (simp add: match_ID_def split: if_splits)
  then have "length (take 5 cs) = 5" by simp
  then have len: "5 \<le> length cs" by simp
  from m t5 have "rest = dropWhile is_digit (dropWhile is_space (drop 5 cs))"
    by (simp add: match_ID_def Let_def split: if_splits)
  then have "length rest \<le> length (drop 5 cs)"
    by (metis length_dropWhile_le le_trans)
  with len show ?thesis by simp
qed

text \<open>
  \<^verbatim>\<open>rawData.replace(/"ID":\s*(\d+)/g, '"ID": "$1"')\<close>: the text is scanned from the left; where
  the expression matches, the match is replaced and the scan goes on after it.
\<close>

function fixedData :: "string \<Rightarrow> string" where
  "fixedData [] = []"
| "fixedData (c # cs) =
     (case match_ID (c # cs) of
        None \<Rightarrow> c # fixedData cs
      | Some (ds, rest) \<Rightarrow> ''\"ID\": \"'' @ ds @ ''\"'' @ fixedData rest)"
  by pat_completeness auto
termination
proof (relation "measure length", goal_cases)
  case 1
  show ?case by simp
next
  case (2 c cs)
  show ?case by simp
next
  case (3 c cs b ds rest)
  then have "match_ID (c # cs) = Some (ds, rest)" by simp
  then have "length rest < length (c # cs)" by (rule match_ID_shorter)
  then show ?case by simp
qed

declare fixedData.simps [simp del]

subsection \<open>State and environment\<close>

text \<open>
  An entry of the file system: a file with its contents, a directory, or an entry that can
  be seen but neither read, written nor entered.
\<close>

datatype node = File string | Dir | Locked

datatype event =
    Log string
  | LogError string
  | Request string
  | Sleep nat

text \<open>
  \<open>files\<close> maps a normalised path, relative to the working directory, to what is stored
  there; the working directory itself is always present. \<open>trace\<close> records, in order, the
  console lines, the HTTPS requests issued and the timers that ran out. \<open>requests\<close> counts
  the requests issued and \<open>awaits\<close> the times the process has gone back to the event loop
  to wait. \<open>isShuttingDown\<close> is the global variable of the script. \<open>pendingError\<close> says that
  a write stream could not open its file: its \<^verbatim>\<open>error\<close> event, which has no listener, is
  delivered the next time the process waits. The two counters are the locals of
  \<^verbatim>\<open>downloadAllAttachments\<close>.
\<close>

record state =
  files :: "string \<rightharpoonup> node"
  trace :: "event list"
  requests :: nat
  awaits :: nat
  isShuttingDown :: bool
  pendingError :: bool
  downloadCount :: nat
  skippedCount :: nat

text \<open>
  What \<^verbatim>\<open>https.get(url, callback)\<close> does with one request: it calls back with a response
  whose body arrives completely (status code and body); it calls back with a response of
  status 200 whose body stops before its end because the connection stalls (the part that
  arrived); it emits \<^verbatim>\<open>error\<close> on the request object; or it throws at once (an
  unsupported protocol such as \<^verbatim>\<open>http:\<close>, for instance).
\<close>

datatype response =
    Response nat string
  | Stalled string
  | RequestError string
  | GetThrows string

text \<open>
  \<open>url_pathname u\<close> is \<^verbatim>\<open>new URL(u).pathname\<close>, \<open>None\<close> when the constructor throws;
  \<open>https_get n u\<close> is the outcome of the \<open>n\<close>-th request of the process when it asks for
  \<open>u\<close>; \<open>sigint n\<close> says whether SIGINT is delivered while the process waits for the
  \<open>n\<close>-th time.
\<close>

record env =
  url_pathname :: "string \<Rightarrow> string option"
  https_get :: "nat \<Rightarrow> string \<Rightarrow> response"
  sigint :: "nat \<Rightarrow> bool"

text \<open>
  How the process can end other than by running to the end of the script: by
  \<^verbatim>\<open>process.exit(0)\<close> in the handler of SIGINT, by an uncaught exception, or not at all (it
  waits for a promise that never settles).
\<close>

datatype ending = Interrupted | Crashed | Hung

definition emit :: "event \<Rightarrow> state \<Rightarrow> state" where
  "emit ev s = s\<lparr>trace := trace s @ [ev]\<rparr>"

text \<open>
  The handler of SIGINT (lines 29 to 33): it logs, sets the flag and ends the process.
\<close>

definition on_SIGINT :: "state \<Rightarrow> state" where
  "on_SIGINT s = (emit (Log ''\<newline>\<newline>Download stopped by user.'') s)\<lparr>isShuttingDown := True\<rparr>"

text \<open>
  The process goes back to the event loop to wait for a promise. A pending \<^verbatim>\<open>error\<close> event
  of a write stream is delivered first and, having no listener, ends the process; else a
  SIGINT that arrives during the wait runs its handler; else the wait comes to its end.
\<close>

definition wait :: "env \<Rightarrow> state \<Rightarrow> ending option \<times> state" where
  "wait e s =
     (if pendingError s then (Some Crashed, s)
      else if sigint e (awaits s) then (Some Interrupted, on_SIGINT s)
      else (None, s\<lparr>awaits := Suc (awaits s)\<rparr>))"

subsection \<open>File system\<close>

text \<open>
  The directory a normalised path lies in (Node's \<^verbatim>\<open>path.dirname\<close> on such a path).
\<close>

definition parent_dir :: "string \<Rightarrow> string" where
  "parent_dir p =
     (if CHR ''/'' \<notin> set p then ''.''
      else (let d = rev (drop 1 (dropWhile (\<lambda>c. c \<noteq> CHR ''/'') (rev p)))
            in if d = [] then ''/'' else d))"

definition is_directory :: "state \<Rightarrow> string \<Rightarrow> bool" where
  "is_directory s d = (d = ''.'' \<or> files s d = Some Dir)"

text \<open>
  A file can be opened for writing when its directory exists and the path itself is
  neither the working directory, nor another directory, nor locked.
\<close>

definition can_open :: "state \<Rightarrow> string \<Rightarrow> bool" where
  "can_open s p =
     (p \<noteq> ''.'' \<and> is_directory s (parent_dir p) \<and> files s p \<noteq> Some Dir \<and> files s p \<noteq> Some Locked)"

text \<open>
  Paths stay relative to the working directory, which never changes, so \<^verbatim>\<open>path.resolve\<close>
  (which prefixes the working directory) names the same file as its argument. Every
  operation of the file system looks its path up in normalised form.
\<close>

definition path_resolve :: "string \<Rightarrow> string" where
  "path_resolve p = p"

definition exists_at :: "state \<Rightarrow> string \<Rightarrow> bool" where
  "exists_at s p = (p = ''.'' \<or> files s p \<noteq> None)"

definition existsSync :: "state \<Rightarrow> string \<Rightarrow> bool" where
  "existsSync s p = exists_at s (normalize p)"

text \<open>
  \<^verbatim>\<open>fs.mkdirSync(dir, { recursive: true })\<close>: the directories on the way are made where
  they are missing; it throws when one of them is there and is not a directory. \<open>pre\<close> is
  the path walked so far, with its slash.
\<close>

fun mkdir_segs :: "string \<Rightarrow> string list \<Rightarrow> (string \<rightharpoonup> node) \<Rightarrow> (string \<rightharpoonup> node) option" where
  "mkdir_segs pre [] fs = Some fs"
| "mkdir_segs pre (g # gs) fs =
     (let p = pre @ g
      in if g = [] \<or> g = ''.'' \<or> g = ''..'' then mkdir_segs (p @ ''/'') gs fs
         else (case fs p of
                 None \<Rightarrow> mkdir_segs (p @ ''/'') gs (fs(p \<mapsto> Dir))
               | Some Dir \<Rightarrow> mkdir_segs (p @ ''/'') gs fs
               | Some other \<Rightarrow> None))"

definition mkdirSync :: "string \<Rightarrow> state \<Rightarrow> error + state" where
  "mkdirSync dir s =
     (case mkdir_segs [] (split_char CHR ''/'' (normalize dir)) (files s) of
        None \<Rightarrow> Inl (SystemError dir)
      | Some fs \<Rightarrow> Inr (s\<lparr>files := fs\<rparr>))"

definition createDirIfNotExists :: "string \<Rightarrow> state \<Rightarrow> error + state" where
  "createDirIfNotExists dir s = (if \<not> existsSync s dir then mkdirSync dir s else Inr s)"

text \<open>
  \<^verbatim>\<open>fs.createWriteStream(filepath)\<close>: the file is created or truncated; when it cannot be
  opened the stream emits \<^verbatim>\<open>error\<close> later, and nothing listens.
\<close>

definition createWriteStream :: "string \<Rightarrow> state \<Rightarrow> state" where
  "createWriteStream filepath s =
     (if can_open s (normalize filepath)
      then s\<lparr>files := (files s)(normalize filepath \<mapsto> File [])\<rparr>
      else s\<lparr>pendingError := True\<rparr>)"

subsection \<open>downloadFile\<close>

datatype result = Resolved | Rejected string | Ended ending

text \<open>The request goes out and the process waits for what comes back.\<close>

definition in_flight :: "env \<Rightarrow> string \<Rightarrow> state \<Rightarrow> ending option \<times> state" where
  "in_flight e url s = wait e ((emit (Request url) s)\<lparr>requests := Suc (requests s)\<rparr>)"

text \<open>
  \<^verbatim>\<open>await downloadFile(url, filepath)\<close>. The write stream is created before the request is
  made. An exception of \<^verbatim>\<open>https.get\<close> inside the promise executor rejects the promise at
  once. Otherwise the process waits. A response with status 200 is piped into the file;
  when the file has been written the line \<^verbatim>\<open>Downloaded: ...\<close> is logged and the promise
  resolves; when the body stops before its end nothing settles the promise and the process
  waits for ever. Any other status rejects the promise and returns. An \<^verbatim>\<open>error\<close> event of
  the request unlinks the file and rejects.
\<close>

definition downloadFile :: "env \<Rightarrow> string \<Rightarrow> string \<Rightarrow> state \<Rightarrow> result \<times> state" where
  "downloadFile e url filepath s =
     (let p = normalize filepath;
          s1 = createWriteStream filepath s
      in case https_get e (requests s) url of
           GetThrows msg \<Rightarrow> (Rejected msg, s1)
         | Response statusCode body \<Rightarrow>
             (case in_flight e url s1 of
                (Some en, s2) \<Rightarrow> (Ended en, s2)
              | (None, s2) \<Rightarrow>
                  if statusCode \<noteq> 200
                  then (Rejected (''Failed to download: '' @ show_nat statusCode), s2)
                  else (Resolved,
                        emit (Log (''Downloaded: '' @ filepath))
                          (s2\<lparr>files := (files s2)(p \<mapsto> File body)\<rparr>)))
         | Stalled part \<Rightarrow>
             (case in_flight e url s1 of
                (Some en, s2) \<Rightarrow> (Ended en, s2)
              | (None, s2) \<Rightarrow> (Ended Hung, s2\<lparr>files := (files s2)(p \<mapsto> File part)\<rparr>))
         | RequestError msg \<Rightarrow>
             (case in_flight e url s1 of
                (Some en, s2) \<Rightarrow> (Ended en, s2)
              | (None, s2) \<Rightarrow> (Rejected msg, s2\<lparr>files := (files s2)(p := None)\<rparr>)))"

subsection \<open>readFile\<close>

definition readFile :: "string \<Rightarrow> state \<Rightarrow> error + json" where
  "readFile filename s =
     (case files s (normalize filename) of
        Some (File rawData) \<Rightarrow> JSON_parse (fixedData rawData)
      | other \<Rightarrow> Inl (SystemError filename))"

subsection \<open>Messages\<close>

text \<open>
  A message as the loop uses it: \<open>ID\<close> is the text that the template literal makes of
  \<^verbatim>\<open>message.ID\<close>; \<open>Attachments\<close> is \<open>None\<close> when \<^verbatim>\<open>message.Attachments\<close> is missing, \<^verbatim>\<open>null\<close> or
  \<^verbatim>\<open>false\<close>, and the string otherwise. Data of any other shape (a number or a container as
  \<^verbatim>\<open>ID\<close>, an \<^verbatim>\<open>Attachments\<close> that is neither a string nor missing, \<^verbatim>\<open>null\<close> or \<^verbatim>\<open>false\<close>, an element
  that is not an object, data that is not an array) is outside the model.
\<close>

record message =
  ID :: string
  Attachments :: "string option"

definition get_field :: "(string \<times> json) list \<Rightarrow> string \<Rightarrow> json option" where
  "get_field kvs k = map_of (rev kvs) k"

fun id_text :: "json option \<Rightarrow> string option" where
  "id_text None = Some ''undefined''"
| "id_text (Some JNull) = Some ''null''"
| "id_text (Some (JBool b)) = Some (if b then ''true'' else ''false'')"
| "id_text (Some (JStr s)) = Some s"
| "id_text (Some v) = None"

fun attachments_field :: "json option \<Rightarrow> string option option" where
  "attachments_field None = Some None"
| "attachments_field (Some JNull) = Some None"
| "attachments_field (Some (JBool b)) = (if b then None else Some None)"
| "attachments_field (Some (JStr s)) = Some (Some s)"
| "attachments_field (Some v) = None"

fun message_of :: "json \<Rightarrow> message option" where
  "message_of (JObj kvs) =
     (case (id_text (get_field kvs ''ID''), attachments_field (get_field kvs ''Attachments'')) of
        (Some i, Some a) \<Rightarrow> Some \<lparr>ID = i, Attachments = a\<rparr>
      | _ \<Rightarrow> None)"
| "message_of v = None"

fun messages_of :: "json \<Rightarrow> message list option" where
  "messages_of (JArr vs) = those (map message_of vs)"
| "messages_of v = None"

subsection \<open>downloadAllAttachments\<close>

definition dataDir :: string where
  "dataDir = ''./data''"

definition downloadDir :: string where
  "downloadDir = ''./downloads''"

text \<open>\<^verbatim>\<open>message.Attachments.split(" ").filter((url) => url.trim() !== "")\<close>\<close>

definition urls_of :: "string \<Rightarrow> string list" where
  "urls_of attachments = filter (\<lambda>url. trim url \<noteq> []) (split_char CHR 0x20 attachments)"

text \<open>The name of the file for the attachment with index \<open>i\<close> (counted from 0) and extension \<open>ext\<close>.\<close>

definition filename_of :: "message \<Rightarrow> nat \<Rightarrow> string \<Rightarrow> string" where
  "filename_of m i ext = ID m @ ''_'' @ show_nat (i + 1) @ ext"

text \<open>
  The body of the inner loop, with its \<^verbatim>\<open>try\<close> and \<^verbatim>\<open>catch\<close>: an exception of \<^verbatim>\<open>new URL\<close> and a
  rejected download both end in the \<^verbatim>\<open>catch\<close> block, which logs and falls through to the
  next index. The counter and the timer are reached only when the download resolved. The
  result is \<open>None\<close> when the loop goes on and the way the process ended otherwise.
\<close>

definition attachment_step :: "env \<Rightarrow> message \<Rightarrow> nat \<Rightarrow> string \<Rightarrow> state \<Rightarrow> ending option \<times> state" where
  "attachment_step e m i url s =
     (case url_pathname e url of
        None \<Rightarrow> (None, emit (LogError (''Error downloading '' @ url @ '': Invalid URL'')) s)
      | Some pathname \<Rightarrow>
          (let filename = basename pathname;
               ext = extname filename;
               filepath = path_join downloadDir (filename_of m i ext);
               fullPath = path_resolve filepath
           in if existsSync s fullPath
              then (None, (emit (Log (''Skipped existing image: '' @ filepath)) s)
                            \<lparr>skippedCount := skippedCount s + 1\<rparr>)
              else (case downloadFile e url filepath s of
                      (Resolved, s1) \<Rightarrow>
                        (case wait e (s1\<lparr>downloadCount := downloadCount s1 + 1\<rparr>) of
                           (Some en, s2) \<Rightarrow> (Some en, s2)
                         | (None, s2) \<Rightarrow> (None, emit (Sleep 700) s2))
                    | (Rejected msg, s1) \<Rightarrow>
                        (None, emit (LogError (''Error downloading '' @ url @ '': '' @ msg)) s1)
                    | (Ended en, s1) \<Rightarrow> (Some en, s1))))"

fun url_loop :: "env \<Rightarrow> message \<Rightarrow> nat \<Rightarrow> string list \<Rightarrow> state \<Rightarrow> ending option \<times> state" where
  "url_loop e m i [] s = (None, s)"
| "url_loop e m i (url # urls) s =
     (case attachment_step e m i url s of
        (Some en, s1) \<Rightarrow> (Some en, s1)
      | (None, s1) \<Rightarrow> url_loop e m (Suc i) urls s1)"

text \<open>The body of the outer loop after the test of the flag.\<close>

definition message_step :: "env \<Rightarrow> message \<Rightarrow> state \<Rightarrow> ending option \<times> state" where
  "message_step e m s =
     (case Attachments m of
        None \<Rightarrow> (None, s)
      | Some a \<Rightarrow> if a = [] \<or> trim a = [] then (None, s) else url_loop e m 0 (urls_of a) s)"

definition stopped_line :: "state \<Rightarrow> string" where
  "stopped_line s =
     ''\<newline>Stopped. Downloaded '' @ show_nat (downloadCount s) @ '' files, skipped ''
       @ show_nat (skippedCount s) @ '' existing files.''"

definition complete_line :: "state \<Rightarrow> string" where
  "complete_line s =
     ''\<newline>Download complete! Total files downloaded: '' @ show_nat (downloadCount s)
       @ '', skipped: '' @ show_nat (skippedCount s)"

text \<open>
  The loop over the messages. The flag is read at the head of every iteration: when it is
  set the counters are logged and the function returns. After the last message the final
  line is logged.
\<close>

fun message_loop :: "env \<Rightarrow> message list \<Rightarrow> state \<Rightarrow> ending option \<times> state" where
  "message_loop e [] s = (None, emit (Log (complete_line s)) s)"
| "message_loop e (m # ms) s =
     (if isShuttingDown s then (None, emit (Log (stopped_line s)) s)
      else (case message_step e m s of
              (Some en, s1) \<Rightarrow> (Some en, s1)
            | (None, s1) \<Rightarrow> message_loop e ms s1))"

text \<open>
  How the async function comes to its end: its promise is fulfilled, it is rejected, or the
  process ends before. Data outside the model of the messages is answered with
  \<open>Unmodelled\<close>.
\<close>

datatype finish = Fulfilled | Failed error | Stopped ending

definition downloadAllAttachments :: "env \<Rightarrow> state \<Rightarrow> finish \<times> state" where
  "downloadAllAttachments e s =
     (case createDirIfNotExists dataDir s of
        Inl err \<Rightarrow> (Failed err, s)
      | Inr s1 \<Rightarrow>
          (let messagesPath = path_join dataDir ''messages.json''
           in if \<not> existsSync s1 messagesPath
              then (Failed (Error (''Input file not found: '' @ messagesPath
                      @ ''. Please place your messages.json file in the data directory.'')), s1)
              else (case readFile messagesPath s1 of
                      Inl err \<Rightarrow> (Failed err, s1)
                    | Inr data \<Rightarrow>
                        (case createDirIfNotExists downloadDir s1 of
                           Inl err \<Rightarrow> (Failed err, s1)
                         | Inr s2 \<Rightarrow>
                             (case messages_of data of
                                None \<Rightarrow> (Failed Unmodelled, s2)
                              | Some msgs \<Rightarrow>
                                  (case message_loop e msgs
                                          (s2\<lparr>downloadCount := 0, skippedCount := 0\<rparr>) of
                                     (Some en, s3) \<Rightarrow> (Stopped en, s3)
                                   | (None, s3) \<Rightarrow> (Fulfilled, s3)))))))"

text \<open>
  What \<^verbatim>\<open>console.error\<close> shows of the error that rejected the promise: the first line, of
  which only the name is kept for a syntax error and only the path for a system error.
\<close>

fun describe :: "error \<Rightarrow> string" where
  "describe (Error msg) = ''Error: '' @ msg"
| "describe SyntaxError = ''SyntaxError''"
| "describe (SystemError p) = ''Error: '' @ p"
| "describe Unmodelled = []"

text \<open>
  How the process leaves: with an exit status, or never; \<open>Outside\<close> answers a run on data
  that the model does not cover.
\<close>

datatype exit = Exit nat | Never | Outside

text \<open>
  The script from its first line to the end of the process. The flag starts as \<^verbatim>\<open>false\<close>.
  The last line, \<^verbatim>\<open>downloadAllAttachments().catch(console.error)\<close>, prints a rejection;
  nothing sets \<^verbatim>\<open>process.exitCode\<close>. When the script has run to its end the process leaves
  with status 0, unless an \<^verbatim>\<open>error\<close> event of a write stream is still pending: it is
  delivered then, and the uncaught exception gives status 1, as it does when it is
  delivered during a wait. The handler of SIGINT leaves with status 0. A process that waits
  for ever has no exit status.
\<close>

definition script :: "env \<Rightarrow> state \<Rightarrow> exit \<times> state" where
  "script e s =
     (case downloadAllAttachments e (s\<lparr>isShuttingDown := False, pendingError := False\<rparr>) of
        (Stopped Crashed, s1) \<Rightarrow> (Exit 1, s1)
      | (Stopped Interrupted, s1) \<Rightarrow> (Exit 0, s1)
      | (Stopped Hung, s1) \<Rightarrow> (Never, s1)
      | (Fulfilled, s1) \<Rightarrow> (if pendingError s1 then Exit 1 else Exit 0, s1)
      | (Failed Unmodelled, s1) \<Rightarrow> (Outside, s1)
      | (Failed err, s1) \<Rightarrow>
          (if pendingError s1 then Exit 1 else Exit 0, emit (LogError (describe err)) s1))"

subsection \<open>Observations on a run\<close>

text \<open>
  The attachments of a message in the order of the inner loop; what is counted on a trace;
  the path that the loop gives to \<^verbatim>\<open>downloadFile\<close> for an attachment and the key of the file
  system that it stands for.
\<close>

definition tasks_of :: "message \<Rightarrow> string list" where
  "tasks_of m = (case Attachments m of None \<Rightarrow> [] | Some a \<Rightarrow> urls_of a)"

fun is_error_line :: "event \<Rightarrow> bool" where
  "is_error_line (LogError msg) = True"
| "is_error_line ev = False"

definition n_errors :: "state \<Rightarrow> nat" where
  "n_errors s = length (filter is_error_line (trace s))"

text \<open>The attachments accounted for: logged as failed, counted as downloaded or counted as skipped.\<close>

definition handled :: "state \<Rightarrow> nat" where
  "handled s = n_errors s + downloadCount s + skippedCount s"

definition dest_path :: "message \<Rightarrow> nat \<Rightarrow> string \<Rightarrow> string" where
  "dest_path m i pathname = path_join downloadDir (filename_of m i (extname (basename pathname)))"

definition dest :: "env \<Rightarrow> message \<Rightarrow> nat \<Rightarrow> string \<Rightarrow> string option" where
  "dest e m i url =
     (case url_pathname e url of
        None \<Rightarrow> None
      | Some pathname \<Rightarrow> Some (normalize (dest_path m i pathname)))"

fun dests_from :: "env \<Rightarrow> message \<Rightarrow> nat \<Rightarrow> string list \<Rightarrow> string option list" where
  "dests_from e m i [] = []"
| "dests_from e m i (url # urls) = dest e m i url # dests_from e m (Suc i) urls"

definition present :: "state \<Rightarrow> string option \<Rightarrow> bool" where
  "present s d = (case d of None \<Rightarrow> False | Some p \<Rightarrow> exists_at s p)"

definition all_present :: "env \<Rightarrow> message list \<Rightarrow> state \<Rightarrow> bool" where
  "all_present e ms s = list_all (\<lambda>m. list_all (present s) (dests_from e m 0 (tasks_of m))) ms"



subsection \<open>Sample environments and states\<close>

definition sample_pathname :: "string \<Rightarrow> string option" where
  "sample_pathname u =
     (if u = ''https://x/a.jpg'' then Some ''/a.jpg''
      else if u = ''https://x/b.png'' then Some ''/b.png''
      else None)"

definition steady_env :: env where
  "steady_env = \<lparr>url_pathname = sample_pathname,
                  https_get = (\<lambda>n u. Response 200 ''image''),
                  sigint = (\<lambda>n. False)\<rparr>"

definition flaky_env :: env where
  "flaky_env = \<lparr>url_pathname = sample_pathname,
                 https_get = (\<lambda>n u. if n = 0 then RequestError ''socket hang up''
                                      else Response 200 ''image''),
                 sigint = (\<lambda>n. False)\<rparr>"

definition missing_env :: env where
  "missing_env = \<lparr>url_pathname = sample_pathname,
                   https_get = (\<lambda>n u. if n = 0 then Response 404 [] else Response 200 ''image''),
                   sigint = (\<lambda>n. False)\<rparr>"

definition stalling_env :: env where
  "stalling_env = \<lparr>url_pathname = sample_pathname,
                    https_get = (\<lambda>n u. if n = 0 then Stalled ''ima'' else Response 200 ''image''),
                    sigint = (\<lambda>n. False)\<rparr>"

text \<open>SIGINT arrives while the process waits for the fifth time.\<close>

definition interrupt_env :: env where
  "interrupt_env = \<lparr>url_pathname = sample_pathname,
                     https_get = (\<lambda>n u. Response 200 ''image''),
                     sigint = (\<lambda>n. n = 4)\<rparr>"

definition empty_disk :: state where
  "empty_disk = \<lparr>files = Map.empty, trace = [], requests = 0, awaits = 0,
                  isShuttingDown = False, pendingError = False,
                  downloadCount = 0, skippedCount = 0\<rparr>"

text \<open>The state in which the loop starts on a disk that has only the directory of the downloads.\<close>

definition ready_disk :: state where
  "ready_disk = empty_disk\<lparr>files := [''downloads'' \<mapsto> Dir]\<rparr>"

definition fresh :: "string \<Rightarrow> state" where
  "fresh rawData =
     empty_disk\<lparr>files := [''data'' \<mapsto> Dir, ''data/messages.json'' \<mapsto> File rawData]\<rparr>"

definition one_message :: "message list" where
  "one_message = [\<lparr>ID = ''7'', Attachments = Some ''https://x/a.jpg''\<rparr>]"

definition two_attachments :: "message list" where
  "two_attachments = [\<lparr>ID = ''7'', Attachments = Some ''https://x/a.jpg https://x/b.png''\<rparr>]"

definition five_messages :: "message list" where
  "five_messages =
     [\<lparr>ID = ''1'', Attachments = Some ''https://x/a.jpg''\<rparr>,
      \<lparr>ID = ''2'', Attachments = Some ''https://x/b.png''\<rparr>,
      \<lparr>ID = ''3'', Attachments = Some ''https://x/a.jpg''\<rparr>,
      \<lparr>ID = ''4'', Attachments = None\<rparr>,
      \<lparr>ID = ''5'', Attachments = Some ''https://x/b.png''\<rparr>]"

text \<open>A message whose identifier has a slash: its files would lie in a directory that is not there.\<close>

definition nested_message :: "message list" where
  "nested_message = [\<lparr>ID = ''a/b'', Attachments = Some ''https://x/a.jpg https://x/b.png''\<rparr>]"

definition spaced_message :: message where
  "spaced_message = \<lparr>ID = ''7'', Attachments = Some ''https://x/a.jpg  https://x/b.png ''\<rparr>"



text \<open>
  An export as a pretty-printer writes it that puts a space on both sides of the colon, with
  the identifier as a number and as a string; an export whose identifier has a slash.
\<close>

definition spaced_export :: string where
  "spaced_export = ''[{\"ID\" : 100000000000000001, \"Attachments\" : \"https://x/a.jpg\"}]''"

definition spaced_quoted_export :: string where
  "spaced_quoted_export = ''[{\"ID\" : \"100000000000000001\", \"Attachments\" : \"https://x/a.jpg\"}]''"

definition nested_export :: string where
  "nested_export = ''[{\"ID\": \"a/b\", \"Attachments\": \"https://x/a.jpg https://x/b.png\"}]''"

subsection \<open>The tokens of the attachments field, in the words of the specification\<close>

text \<open>
  The specification separates the URL tokens of the attachments field at white space or
  commas and discards the empty tokens. \<open>spec_tokens\<close> follows these words; it is compared
  with \<open>urls_of\<close>, which follows the code.
\<close>

definition is_separator :: "char \<Rightarrow> bool" where
  "is_separator c = (is_space c \<or> c = CHR '','')"

primrec split_where :: "(char \<Rightarrow> bool) \<Rightarrow> string \<Rightarrow> string list" where
  "split_where P [] = [[]]"
| "split_where P (x # xs) =
     (if P x then [] # split_where P xs
      else (case split_where P xs of [] \<Rightarrow> [[x]] | t # ts \<Rightarrow> (x # t) # ts))"

definition spec_tokens :: "string \<Rightarrow> string list" where
  "spec_tokens field = filter (\<lambda>t. t \<noteq> []) (split_where is_separator field)"

section \<open>Properties\<close>

subsection \<open>Blank fields\<close>

lemma split_char_pieces: "t \<in> set (split_char c xs) \<Longrightarrow> set t \<subseteq> set xs"
proof (induction xs arbitrary: t)
  case Nil
  then show ?case by simp
next
  case (Cons x xs)
  show ?case
  proof (cases "split_char c xs")
    case Nil
    with Cons.prems show ?thesis by (auto split: if_splits)
  next
    case (Cons p ps)
    have "set p \<subseteq> set xs" using Cons.IH [of p] Cons by simp
    moreover have "\<And>q. q \<in> set ps \<Longrightarrow> set q \<subseteq> set xs" using Cons.IH Cons by simp
    ultimately show ?thesis using Cons.prems Cons by (auto split: if_splits)
  qed
qed

lemma trim_empty_iff: "trim s = [] \<longleftrightarrow> (\<forall>c\<in>set s. is_space c)"
proof
  assume "trim s = []"
  then have a: "\<forall>x\<in>set (dropWhile is_space s). is_space x"
    by (simp add: trim_def dropWhile_eq_Nil_conv)
  have "dropWhile is_space s = []"
  proof (rule ccontr)
    assume n: "dropWhile is_space s \<noteq> []"
    then have "\<not> is_space (hd (dropWhile is_space s))" by (rule hd_dropWhile)
    moreover from n have "hd (dropWhile is_space s) \<in> set (dropWhile is_space s)" by simp
    ultimately show False using a by blast
  qed
  then show "\<forall>c\<in>set s. is_space c" by (simp add: dropWhile_eq_Nil_conv)
next
  assume "\<forall>c\<in>set s. is_space c"
  then have d: "dropWhile is_space s = []" by simp
  show "trim s = []" unfolding trim_def d by simp
qed

lemma urls_of_blank: "trim a = [] \<Longrightarrow> urls_of a = []"
proof -
  assume "trim a = []"
  then have all: "\<forall>c\<in>set a. is_space c" by (simp add: trim_empty_iff)
  have "\<forall>t\<in>set (split_char CHR 0x20 a). trim t = []"
  proof
    fix t assume "t \<in> set (split_char CHR 0x20 a)"
    then have "set t \<subseteq> set a" by (rule split_char_pieces)
    with all show "trim t = []" by (auto simp: trim_empty_iff)
  qed
  then show ?thesis by (simp add: urls_of_def filter_empty_conv)
qed

lemma urls_of_Nil: "urls_of [] = []"
  by (simp add: urls_of_def trim_def)

lemma message_step_tasks: "message_step e m s = url_loop e m 0 (tasks_of m) s"
  by (auto simp: message_step_def tasks_of_def urls_of_blank urls_of_Nil split: option.splits)

subsection \<open>Steps of the loop\<close>

lemma wait_cases:
  obtains (crash) "pendingError s" "wait e s = (Some Crashed, s)"
  | (interrupt) "\<not> pendingError s" "sigint e (awaits s)" "wait e s = (Some Interrupted, on_SIGINT s)"
  | (go) "\<not> pendingError s" "\<not> sigint e (awaits s)" "wait e s = (None, s\<lparr>awaits := Suc (awaits s)\<rparr>)"
  by (cases "pendingError s"; cases "sigint e (awaits s)") (auto simp: wait_def)

lemma n_errors_emit_Log [simp]: "n_errors (emit (Log l) s) = n_errors s"
  by (simp add: n_errors_def emit_def)

lemma n_errors_emit_Request [simp]: "n_errors (emit (Request u) s) = n_errors s"
  by (simp add: n_errors_def emit_def)

lemma n_errors_emit_Sleep [simp]: "n_errors (emit (Sleep n) s) = n_errors s"
  by (simp add: n_errors_def emit_def)

lemma n_errors_emit_LogError [simp]: "n_errors (emit (LogError l) s) = Suc (n_errors s)"
  by (simp add: n_errors_def emit_def)

lemma n_errors_update [simp]:
  "n_errors (s\<lparr>files := f\<rparr>) = n_errors s"
  "n_errors (s\<lparr>requests := r\<rparr>) = n_errors s"
  "n_errors (s\<lparr>awaits := a\<rparr>) = n_errors s"
  "n_errors (s\<lparr>isShuttingDown := b\<rparr>) = n_errors s"
  "n_errors (s\<lparr>pendingError := b\<rparr>) = n_errors s"
  "n_errors (s\<lparr>downloadCount := c\<rparr>) = n_errors s"
  "n_errors (s\<lparr>skippedCount := c\<rparr>) = n_errors s"
  by (simp_all add: n_errors_def)

lemma emit_fields [simp]:
  "files (emit ev s) = files s"
  "requests (emit ev s) = requests s"
  "awaits (emit ev s) = awaits s"
  "isShuttingDown (emit ev s) = isShuttingDown s"
  "pendingError (emit ev s) = pendingError s"
  "downloadCount (emit ev s) = downloadCount s"
  "skippedCount (emit ev s) = skippedCount s"
  "trace (emit ev s) = trace s @ [ev]"
  by (simp_all add: emit_def)

lemma on_SIGINT_fields [simp]:
  "files (on_SIGINT s) = files s"
  "requests (on_SIGINT s) = requests s"
  "awaits (on_SIGINT s) = awaits s"
  "pendingError (on_SIGINT s) = pendingError s"
  "downloadCount (on_SIGINT s) = downloadCount s"
  "skippedCount (on_SIGINT s) = skippedCount s"
  "n_errors (on_SIGINT s) = n_errors s"
  "isShuttingDown (on_SIGINT s)"
  by (simp_all add: on_SIGINT_def)

lemma attachment_step_invalid:
  "url_pathname e url = None \<Longrightarrow>
   attachment_step e m i url s =
     (None, emit (LogError (''Error downloading '' @ url @ '': Invalid URL'')) s)"
  by (simp add: attachment_step_def)

lemma attachment_step_exists:
  "url_pathname e url = Some pathname \<Longrightarrow> existsSync s (dest_path m i pathname) \<Longrightarrow>
   attachment_step e m i url s =
     (None, (emit (Log (''Skipped existing image: '' @ dest_path m i pathname)) s)
              \<lparr>skippedCount := skippedCount s + 1\<rparr>)"
  by (simp add: attachment_step_def dest_path_def path_resolve_def Let_def)

lemma attachment_step_download:
  "url_pathname e url = Some pathname \<Longrightarrow> \<not> existsSync s (dest_path m i pathname) \<Longrightarrow>
   attachment_step e m i url s =
     (case downloadFile e url (dest_path m i pathname) s of
        (Resolved, s1) \<Rightarrow>
          (case wait e (s1\<lparr>downloadCount := downloadCount s1 + 1\<rparr>) of
             (Some en, s2) \<Rightarrow> (Some en, s2)
           | (None, s2) \<Rightarrow> (None, emit (Sleep 700) s2))
      | (Rejected msg, s1) \<Rightarrow>
          (None, emit (LogError (''Error downloading '' @ url @ '': '' @ msg)) s1)
      | (Ended en, s1) \<Rightarrow> (Some en, s1))"
  by (simp add: attachment_step_def dest_path_def path_resolve_def Let_def)

lemma createWriteStream_fields [simp]:
  "trace (createWriteStream fp s) = trace s"
  "requests (createWriteStream fp s) = requests s"
  "awaits (createWriteStream fp s) = awaits s"
  "isShuttingDown (createWriteStream fp s) = isShuttingDown s"
  "downloadCount (createWriteStream fp s) = downloadCount s"
  "skippedCount (createWriteStream fp s) = skippedCount s"
  "n_errors (createWriteStream fp s) = n_errors s"
  by (simp_all add: createWriteStream_def n_errors_def)

lemma createWriteStream_pending:
  "pendingError (createWriteStream fp s) = (pendingError s \<or> \<not> can_open s (normalize fp))"
  by (simp add: createWriteStream_def)

lemma createWriteStream_files:
  "\<not> pendingError (createWriteStream fp s) \<Longrightarrow>
   files (createWriteStream fp s) = (files s)(normalize fp \<mapsto> File [])"
  by (simp add: createWriteStream_def split: if_splits)

lemma in_flight_cases:
  obtains
    (crash) "pendingError s"
      "in_flight e url s = (Some Crashed, (emit (Request url) s)\<lparr>requests := Suc (requests s)\<rparr>)"
  | (interrupt) "\<not> pendingError s" "sigint e (awaits s)"
      "in_flight e url s =
         (Some Interrupted, on_SIGINT ((emit (Request url) s)\<lparr>requests := Suc (requests s)\<rparr>))"
  | (go) "\<not> pendingError s" "\<not> sigint e (awaits s)"
      "in_flight e url s =
         (None, (emit (Request url) s)\<lparr>requests := Suc (requests s), awaits := Suc (awaits s)\<rparr>)"
  by (cases "pendingError s"; cases "sigint e (awaits s)") (auto simp: in_flight_def wait_def)

lemma downloadFile_ended:
  "\<forall>msg. https_get e (requests s) url \<noteq> GetThrows msg \<Longrightarrow>
   in_flight e url (createWriteStream fp s) = (Some en, s2) \<Longrightarrow>
   downloadFile e url fp s = (Ended en, s2)"
  by (cases "https_get e (requests s) url") (simp_all add: downloadFile_def Let_def)

text \<open>
  The ways one step of the inner loop can go, each with the state it leaves. \<open>s1\<close> is the
  state after the write stream has been created and \<open>s2\<close> the state when the answer to the
  request has come.
\<close>

lemma attachment_step_cases:
  fixes e m i url s
  obtains
    (invalid) "url_pathname e url = None"
      "attachment_step e m i url s =
         (None, emit (LogError (''Error downloading '' @ url @ '': Invalid URL'')) s)"
  | (skipped) pathname where "url_pathname e url = Some pathname"
      "existsSync s (dest_path m i pathname)"
      "attachment_step e m i url s =
         (None, (emit (Log (''Skipped existing image: '' @ dest_path m i pathname)) s)
                  \<lparr>skippedCount := skippedCount s + 1\<rparr>)"
  | (threw) pathname msg where "url_pathname e url = Some pathname"
      "\<not> existsSync s (dest_path m i pathname)"
      "https_get e (requests s) url = GetThrows msg"
      "attachment_step e m i url s =
         (None, emit (LogError (''Error downloading '' @ url @ '': '' @ msg))
                  (createWriteStream (dest_path m i pathname) s))"
  | (crashed) pathname where "url_pathname e url = Some pathname"
      "\<not> existsSync s (dest_path m i pathname)"
      "pendingError s \<or> \<not> can_open s (normalize (dest_path m i pathname))"
      "attachment_step e m i url s =
         (Some Crashed,
          (emit (Request url) (createWriteStream (dest_path m i pathname) s))
            \<lparr>requests := Suc (requests s)\<rparr>)"
  | (interrupted) pathname where "url_pathname e url = Some pathname"
      "\<not> existsSync s (dest_path m i pathname)"
      "\<not> pendingError s" "can_open s (normalize (dest_path m i pathname))"
      "sigint e (awaits s)"
      "attachment_step e m i url s =
         (Some Interrupted,
          on_SIGINT
            ((emit (Request url) s)
               \<lparr>files := (files s)(normalize (dest_path m i pathname) \<mapsto> File []),
                requests := Suc (requests s)\<rparr>))"
  | (interrupted_after) pathname body where "url_pathname e url = Some pathname"
      "\<not> existsSync s (dest_path m i pathname)"
      "\<not> pendingError s" "can_open s (normalize (dest_path m i pathname))"
      "\<not> sigint e (awaits s)" "sigint e (Suc (awaits s))"
      "https_get e (requests s) url = Response 200 body"
      "attachment_step e m i url s =
         (Some Interrupted,
          on_SIGINT
            ((emit (Log (''Downloaded: '' @ dest_path m i pathname)) (emit (Request url) s))
               \<lparr>files := (files s)(normalize (dest_path m i pathname) \<mapsto> File body),
                requests := Suc (requests s), awaits := Suc (awaits s),
                downloadCount := downloadCount s + 1\<rparr>))"
  | (hung) pathname part where "url_pathname e url = Some pathname"
      "\<not> existsSync s (dest_path m i pathname)"
      "\<not> pendingError s" "can_open s (normalize (dest_path m i pathname))"
      "\<not> sigint e (awaits s)"
      "https_get e (requests s) url = Stalled part"
      "attachment_step e m i url s =
         (Some Hung,
          (emit (Request url) s)
            \<lparr>files := (files s)(normalize (dest_path m i pathname) \<mapsto> File part),
             requests := Suc (requests s), awaits := Suc (awaits s)\<rparr>)"
  | (bad_status) pathname statusCode body where "url_pathname e url = Some pathname"
      "\<not> existsSync s (dest_path m i pathname)"
      "\<not> pendingError s" "can_open s (normalize (dest_path m i pathname))"
      "\<not> sigint e (awaits s)"
      "https_get e (requests s) url = Response statusCode body" "statusCode \<noteq> 200"
      "attachment_step e m i url s =
         (None,
          emit (LogError (''Error downloading '' @ url @ '': Failed to download: ''
                            @ show_nat statusCode))
            ((emit (Request url) s)
               \<lparr>files := (files s)(normalize (dest_path m i pathname) \<mapsto> File []),
                requests := Suc (requests s), awaits := Suc (awaits s)\<rparr>))"
  | (request_error) pathname msg where "url_pathname e url = Some pathname"
      "\<not> existsSync s (dest_path m i pathname)"
      "\<not> pendingError s" "can_open s (normalize (dest_path m i pathname))"
      "\<not> sigint e (awaits s)"
      "https_get e (requests s) url = RequestError msg"
      "attachment_step e m i url s =
         (None,
          emit (LogError (''Error downloading '' @ url @ '': '' @ msg))
            ((emit (Request url) s)
               \<lparr>files := (files s)(normalize (dest_path m i pathname) := None),
                requests := Suc (requests s), awaits := Suc (awaits s)\<rparr>))"
  | (downloaded) pathname body where "url_pathname e url = Some pathname"
      "\<not> existsSync s (dest_path m i pathname)"
      "\<not> pendingError s" "can_open s (normalize (dest_path m i pathname))"
      "\<not> sigint e (awaits s)" "\<not> sigint e (Suc (awaits s))"
      "https_get e (requests s) url = Response 200 body"
      "attachment_step e m i url s =
         (None,
          emit (Sleep 700)
            ((emit (Log (''Downloaded: '' @ dest_path m i pathname)) (emit (Request url) s))
               \<lparr>files := (files s)(normalize (dest_path m i pathname) \<mapsto> File body),
                requests := Suc (requests s), awaits := Suc (Suc (awaits s)),
                downloadCount := downloadCount s + 1\<rparr>))"
proof (cases "url_pathname e url")
  case None
  then show ?thesis using invalid attachment_step_invalid by simp
next
  case (Some pathname)
  define fp where "fp = dest_path m i pathname"
  define s1 where "s1 = createWriteStream fp s"
  show ?thesis
  proof (cases "existsSync s fp")
    case True
    then show ?thesis using skipped [OF Some] attachment_step_exists [OF Some] by (simp add: fp_def)
  next
    case False
    note ne = False [unfolded fp_def]
    have step: "attachment_step e m i url s =
       (case downloadFile e url fp s of
          (Resolved, s1) \<Rightarrow>
            (case wait e (s1\<lparr>downloadCount := downloadCount s1 + 1\<rparr>) of
               (Some en, s2) \<Rightarrow> (Some en, s2)
             | (None, s2) \<Rightarrow> (None, emit (Sleep 700) s2))
        | (Rejected msg, s1) \<Rightarrow>
            (None, emit (LogError (''Error downloading '' @ url @ '': '' @ msg)) s1)
        | (Ended en, s1) \<Rightarrow> (Some en, s1))"
      using attachment_step_download [OF Some ne] by (simp add: fp_def)
    show ?thesis
    proof (cases "\<exists>msg. https_get e (requests s) url = GetThrows msg")
      case True
      then obtain msg where g: "https_get e (requests s) url = GetThrows msg" by blast
      have "downloadFile e url fp s = (Rejected msg, s1)"
        by (simp add: downloadFile_def Let_def g s1_def)
      then show ?thesis using threw [OF Some ne g] step by (simp add: s1_def fp_def)
    next
      case False
      then have ng: "\<forall>msg. https_get e (requests s) url \<noteq> GetThrows msg" by simp
      show ?thesis
      proof (cases rule: in_flight_cases [of s1 e url])
        case crash
        have "downloadFile e url fp s =
                (Ended Crashed, (emit (Request url) s1)\<lparr>requests := Suc (requests s1)\<rparr>)"
          using downloadFile_ended [OF ng] crash(2) by (simp add: s1_def)
        then have "attachment_step e m i url s =
                (Some Crashed, (emit (Request url) s1)\<lparr>requests := Suc (requests s1)\<rparr>)"
          using step by simp
        moreover have "pendingError s \<or> \<not> can_open s (normalize (dest_path m i pathname))"
          using crash(1) by (simp add: s1_def fp_def createWriteStream_pending)
        ultimately show ?thesis
          using crashed [OF Some ne] by (simp add: s1_def fp_def)
      next
        case interrupt
        have p: "\<not> pendingError s" "can_open s (normalize fp)"
          using interrupt(1) by (simp_all add: s1_def createWriteStream_pending)
        have s1: "s1 = s\<lparr>files := (files s)(normalize fp \<mapsto> File [])\<rparr>"
          using p by (simp add: s1_def createWriteStream_def)
        have sg: "sigint e (awaits s)" using interrupt(2) by (simp add: s1_def)
        have "downloadFile e url fp s =
                (Ended Interrupted,
                 on_SIGINT ((emit (Request url) s1)\<lparr>requests := Suc (requests s1)\<rparr>))"
          using downloadFile_ended [OF ng] interrupt(3) by (simp add: s1_def)
        then have "attachment_step e m i url s =
                (Some Interrupted,
                 on_SIGINT ((emit (Request url) s1)\<lparr>requests := Suc (requests s1)\<rparr>))"
          using step by simp
        moreover have "(emit (Request url) s1)\<lparr>requests := Suc (requests s1)\<rparr> =
            (emit (Request url) s)
               \<lparr>files := (files s)(normalize (dest_path m i pathname) \<mapsto> File []),
                requests := Suc (requests s)\<rparr>"
          by (rule state.equality) (simp_all add: s1 fp_def emit_def)
        ultimately show ?thesis
          using interrupted [OF Some ne p(1) p(2) [unfolded fp_def] sg] by simp
      next
        case go
        have p: "\<not> pendingError s" "can_open s (normalize fp)"
          using go(1) by (simp_all add: s1_def createWriteStream_pending)
        have s1: "s1 = s\<lparr>files := (files s)(normalize fp \<mapsto> File [])\<rparr>"
          using p by (simp add: s1_def createWriteStream_def)
        have sg: "\<not> sigint e (awaits s)" using go(2) by (simp add: s1_def)
        have fl: "in_flight e url (createWriteStream fp s) =
            (None, (emit (Request url) s1)\<lparr>requests := Suc (requests s1), awaits := Suc (awaits s1)\<rparr>)"
          using go(3) by (simp add: s1_def)
        show ?thesis
        proof (cases "https_get e (requests s) url")
          case (GetThrows msg)
          then show ?thesis using ng by simp
        next
          case (Stalled part)
          have "attachment_step e m i url s =
             (Some Hung,
              (emit (Request url) s)
                \<lparr>files := (files s)(normalize fp \<mapsto> File part),
                 requests := Suc (requests s), awaits := Suc (awaits s)\<rparr>)"
            unfolding step by (simp add: downloadFile_def Let_def Stalled fl) (simp add: s1 emit_def)
          then show ?thesis
            using hung [OF Some ne p(1) p(2) [unfolded fp_def] sg Stalled] by (simp add: fp_def)
        next
          case (RequestError msg)
          have "attachment_step e m i url s =
             (None,
              emit (LogError (''Error downloading '' @ url @ '': '' @ msg))
                ((emit (Request url) s)
                   \<lparr>files := (files s)(normalize fp := None),
                    requests := Suc (requests s), awaits := Suc (awaits s)\<rparr>))"
            unfolding step by (simp add: downloadFile_def Let_def RequestError fl) (simp add: s1 emit_def)
          then show ?thesis
            using request_error [OF Some ne p(1) p(2) [unfolded fp_def] sg RequestError]
            by (simp add: fp_def)
        next
          case (Response statusCode body)
          show ?thesis
          proof (cases "statusCode = 200")
            case False
            have "attachment_step e m i url s =
               (None,
                emit (LogError (''Error downloading '' @ url @ '': Failed to download: ''
                                  @ show_nat statusCode))
                  ((emit (Request url) s)
                     \<lparr>files := (files s)(normalize fp \<mapsto> File []),
                      requests := Suc (requests s), awaits := Suc (awaits s)\<rparr>))"
              unfolding step using False
              by (simp add: downloadFile_def Let_def Response fl) (simp add: s1 emit_def)
            then show ?thesis
              using bad_status [OF Some ne p(1) p(2) [unfolded fp_def] sg Response False]
              by (simp add: fp_def)
          next
            case True
            define s3 where "s3 =
               (emit (Log (''Downloaded: '' @ fp))
                  (((emit (Request url) s1)
                      \<lparr>requests := Suc (requests s1), awaits := Suc (awaits s1)\<rparr>)
                     \<lparr>files := (files s1)(normalize fp \<mapsto> File body)\<rparr>))
                 \<lparr>downloadCount := downloadCount s1 + 1\<rparr>"
            have st: "attachment_step e m i url s =
               (case wait e s3 of
                  (Some en, s2) \<Rightarrow> (Some en, s2)
                | (None, s2) \<Rightarrow> (None, emit (Sleep 700) s2))"
              unfolding step using True
              by (simp add: downloadFile_def Let_def Response fl s3_def)
            have np: "\<not> pendingError s3" using p(1) by (simp add: s3_def s1)
            have aw: "awaits s3 = Suc (awaits s)" by (simp add: s3_def s1)
            have ne3: "n_errors s3 = n_errors s" by (simp add: s3_def s1)
            show ?thesis
            proof (cases "sigint e (Suc (awaits s))")
              case True
              have "attachment_step e m i url s = (Some Interrupted, on_SIGINT s3)"
                unfolding st using np aw True by (simp add: wait_def)
              moreover have "s3 =
                  (emit (Log (''Downloaded: '' @ dest_path m i pathname)) (emit (Request url) s))
                     \<lparr>files := (files s)(normalize (dest_path m i pathname) \<mapsto> File body),
                      requests := Suc (requests s), awaits := Suc (awaits s),
                      downloadCount := downloadCount s + 1\<rparr>"
                by (rule state.equality) (simp_all add: s3_def s1 fp_def emit_def)
              ultimately show ?thesis
                using interrupted_after [OF Some ne p(1) p(2) [unfolded fp_def] sg True
                    Response [unfolded \<open>statusCode = 200\<close>]]
                by simp
            next
              case False
              have "attachment_step e m i url s =
                      (None, emit (Sleep 700) (s3\<lparr>awaits := Suc (Suc (awaits s))\<rparr>))"
                unfolding st using np aw False by (simp add: wait_def)
              moreover have "emit (Sleep 700) (s3\<lparr>awaits := Suc (Suc (awaits s))\<rparr>) =
                  emit (Sleep 700)
                    ((emit (Log (''Downloaded: '' @ dest_path m i pathname)) (emit (Request url) s))
                       \<lparr>files := (files s)(normalize (dest_path m i pathname) \<mapsto> File body),
                        requests := Suc (requests s), awaits := Suc (Suc (awaits s)),
                        downloadCount := downloadCount s + 1\<rparr>)"
                by (rule state.equality) (simp_all add: s3_def s1 fp_def emit_def)
              ultimately show ?thesis
                using downloaded [OF Some ne p(1) p(2) [unfolded fp_def] sg False
                    Response [unfolded True]]
                by simp
            qed
          qed
        qed
      qed
    qed
  qed
qed

subsection \<open>Accounting of attachments\<close>

lemma attachment_step_handled:
  "fst (attachment_step e m i url s) = None \<Longrightarrow>
   handled (snd (attachment_step e m i url s)) = Suc (handled s)"
  by (cases rule: attachment_step_cases [where e = e and m = m and i = i and url = url and s = s])
     (simp_all add: handled_def)

lemma url_loop_handled:
  "fst (url_loop e m i urls s) = None \<Longrightarrow>
   handled (snd (url_loop e m i urls s)) = handled s + length urls"
proof (induction urls arbitrary: i s)
  case Nil
  then show ?case by simp
next
  case (Cons url urls)
  obtain r s1 where st: "attachment_step e m i url s = (r, s1)" by (cases "attachment_step e m i url s")
  show ?case
  proof (cases r)
    case None
    have h: "handled s1 = Suc (handled s)"
      using attachment_step_handled [of e m i url s] st None by simp
    have "fst (url_loop e m (Suc i) urls s1) = None" using Cons.prems st None by simp
    from Cons.IH [OF this] show ?thesis using st None h by simp
  next
    case (Some en)
    then show ?thesis using Cons.prems st by simp
  qed
qed

lemma message_step_handled:
  "fst (message_step e m s) = None \<Longrightarrow>
   handled (snd (message_step e m s)) = handled s + length (tasks_of m)"
  using url_loop_handled [of e m 0 "tasks_of m" s] by (simp add: message_step_tasks)

subsection \<open>Errors, files and the flag along a run\<close>

lemma attachment_step_errors_mono: "n_errors s \<le> n_errors (snd (attachment_step e m i url s))"
  by (cases rule: attachment_step_cases [where e = e and m = m and i = i and url = url and s = s])
     simp_all

lemma attachment_step_flag:
  "fst (attachment_step e m i url s) = None \<Longrightarrow>
   isShuttingDown (snd (attachment_step e m i url s)) = isShuttingDown s"
  by (cases rule: attachment_step_cases [where e = e and m = m and i = i and url = url and s = s])
     simp_all

lemma attachment_step_Crashed:
  "fst (attachment_step e m i url s) = Some Crashed \<Longrightarrow>
   pendingError (snd (attachment_step e m i url s))"
  by (cases rule: attachment_step_cases [where e = e and m = m and i = i and url = url and s = s])
     (auto simp: createWriteStream_pending)

lemma attachment_step_Interrupted:
  "fst (attachment_step e m i url s) = Some Interrupted \<Longrightarrow>
   \<exists>s'. snd (attachment_step e m i url s) = on_SIGINT s'"
  by (cases rule: attachment_step_cases [where e = e and m = m and i = i and url = url and s = s])
     auto




lemma attachment_step_clean:
  assumes "fst (attachment_step e m i url s) = None"
    and "n_errors (snd (attachment_step e m i url s)) = n_errors s"
  shows "present (snd (attachment_step e m i url s)) (dest e m i url) \<and>
         (\<forall>p. files s p \<noteq> None \<longrightarrow> files (snd (attachment_step e m i url s)) p \<noteq> None)"
proof (cases rule: attachment_step_cases [where e = e and m = m and i = i and url = url and s = s])
  case invalid
  then show ?thesis using assms(2) by simp
next
  case (skipped pathname)
  then show ?thesis by (simp add: present_def dest_def existsSync_def exists_at_def)
next
  case (threw pathname msg)
  then show ?thesis using assms(2) by simp
next
  case (crashed pathname)
  then show ?thesis using assms(1) by simp
next
  case (interrupted pathname)
  then show ?thesis using assms(1) by simp
next
  case (interrupted_after pathname body)
  then show ?thesis using assms(1) by simp
next
  case (hung pathname part)
  then show ?thesis using assms(1) by simp
next
  case (bad_status pathname statusCode body)
  then show ?thesis using assms(2) by simp
next
  case (request_error pathname msg)
  then show ?thesis using assms(2) by simp
next
  case (downloaded pathname body)
  then show ?thesis by (simp add: present_def dest_def exists_at_def)
qed

lemma attachment_step_present:
  assumes "present s (dest e m i url)"
  shows "\<exists>l. attachment_step e m i url s =
           (None, (emit (Log l) s)\<lparr>skippedCount := skippedCount s + 1\<rparr>)"
proof -
  from assms obtain pathname where p: "url_pathname e url = Some pathname"
    and x: "exists_at s (normalize (dest_path m i pathname))"
    by (auto simp: present_def dest_def split: option.splits)
  have "existsSync s (dest_path m i pathname)" using x by (simp add: existsSync_def)
  from attachment_step_exists [OF p this] show ?thesis by blast
qed


subsection \<open>The loops\<close>

lemma url_loop_step:
  obtains (ended) en s1 where "attachment_step e m i url s = (Some en, s1)"
      "url_loop e m i (url # urls) s = (Some en, s1)"
  | (goes_on) s1 where "attachment_step e m i url s = (None, s1)"
      "url_loop e m i (url # urls) s = url_loop e m (Suc i) urls s1"
proof (cases "attachment_step e m i url s")
  case (Pair r s1)
  show ?thesis
  proof (cases r)
    case None
    then show ?thesis using goes_on [of s1] Pair by simp
  next
    case (Some en)
    then show ?thesis using ended [of en s1] Pair by simp
  qed
qed

lemma message_loop_step:
  obtains (stopped) "isShuttingDown s"
      "message_loop e (m # ms) s = (None, emit (Log (stopped_line s)) s)"
  | (ended) en s1 where "\<not> isShuttingDown s" "message_step e m s = (Some en, s1)"
      "message_loop e (m # ms) s = (Some en, s1)"
  | (goes_on) s1 where "\<not> isShuttingDown s" "message_step e m s = (None, s1)"
      "message_loop e (m # ms) s = message_loop e ms s1"
proof (cases "isShuttingDown s")
  case True
  then show ?thesis using stopped by simp
next
  case False
  show ?thesis
  proof (cases "message_step e m s")
    case (Pair r s1)
    show ?thesis
    proof (cases r)
      case None
      then show ?thesis using goes_on [of s1] Pair False by simp
    next
      case (Some en)
      then show ?thesis using ended [of en s1] Pair False by simp
    qed
  qed
qed

lemma url_loop_errors_mono: "n_errors s \<le> n_errors (snd (url_loop e m i urls s))"
proof (induction urls arbitrary: i s)
  case Nil
  then show ?case by simp
next
  case (Cons url urls)
  have a: "n_errors s \<le> n_errors (snd (attachment_step e m i url s))"
    by (rule attachment_step_errors_mono)
  show ?case
  proof (cases rule: url_loop_step [of e m i url s urls])
    case (ended en s1)
    then show ?thesis using a by simp
  next
    case (goes_on s1)
    have "n_errors s1 \<le> n_errors (snd (url_loop e m (Suc i) urls s1))" by (rule Cons.IH)
    then show ?thesis using a goes_on by simp
  qed
qed

lemma url_loop_flag:
  "fst (url_loop e m i urls s) = None \<Longrightarrow>
   isShuttingDown (snd (url_loop e m i urls s)) = isShuttingDown s"
proof (induction urls arbitrary: i s)
  case Nil
  then show ?case by simp
next
  case (Cons url urls)
  show ?case
  proof (cases rule: url_loop_step [of e m i url s urls])
    case (ended en s1)
    then show ?thesis using Cons.prems by simp
  next
    case (goes_on s1)
    have "isShuttingDown s1 = isShuttingDown s"
      using attachment_step_flag [of e m i url s] goes_on(1) by simp
    moreover have "fst (url_loop e m (Suc i) urls s1) = None" using Cons.prems goes_on(2) by simp
    ultimately show ?thesis using Cons.IH [of "Suc i" s1] goes_on(2) by simp
  qed
qed

lemma url_loop_Crashed:
  "fst (url_loop e m i urls s) = Some Crashed \<Longrightarrow> pendingError (snd (url_loop e m i urls s))"
proof (induction urls arbitrary: i s)
  case Nil
  then show ?case by simp
next
  case (Cons url urls)
  show ?case
  proof (cases rule: url_loop_step [of e m i url s urls])
    case (ended en s1)
    then show ?thesis using Cons.prems attachment_step_Crashed [of e m i url s] by simp
  next
    case (goes_on s1)
    then show ?thesis using Cons.prems Cons.IH [of "Suc i" s1] by simp
  qed
qed

lemma url_loop_Interrupted:
  "fst (url_loop e m i urls s) = Some Interrupted \<Longrightarrow>
   \<exists>s'. snd (url_loop e m i urls s) = on_SIGINT s'"
proof (induction urls arbitrary: i s)
  case Nil
  then show ?case by simp
next
  case (Cons url urls)
  show ?case
  proof (cases rule: url_loop_step [of e m i url s urls])
    case (ended en s1)
    then show ?thesis using Cons.prems attachment_step_Interrupted [of e m i url s] by simp
  next
    case (goes_on s1)
    then show ?thesis using Cons.prems Cons.IH [of "Suc i" s1] by simp
  qed
qed



lemma present_mono:
  "\<forall>p. files s p \<noteq> None \<longrightarrow> files s' p \<noteq> None \<Longrightarrow> present s d \<Longrightarrow> present s' d"
  by (auto simp: present_def exists_at_def split: option.splits)

lemma present_cong: "files s' = files s \<Longrightarrow> present s' d = present s d"
  by (simp add: present_def exists_at_def split: option.splits)

lemma url_loop_clean:
  assumes "fst (url_loop e m i urls s) = None"
    and "n_errors (snd (url_loop e m i urls s)) = n_errors s"
  shows "list_all (present (snd (url_loop e m i urls s))) (dests_from e m i urls) \<and>
         (\<forall>p. files s p \<noteq> None \<longrightarrow> files (snd (url_loop e m i urls s)) p \<noteq> None)"
  using assms
proof (induction urls arbitrary: i s)
  case Nil
  then show ?case by simp
next
  case (Cons url urls)
  show ?case
  proof (cases rule: url_loop_step [of e m i url s urls])
    case (ended en s1)
    then show ?thesis using Cons.prems(1) by simp
  next
    case (goes_on s1)
    let ?r = "url_loop e m (Suc i) urls s1"
    have a: "n_errors s \<le> n_errors s1"
      using attachment_step_errors_mono [of s e m i url] goes_on(1) by simp
    have b: "n_errors s1 \<le> n_errors (snd ?r)" by (rule url_loop_errors_mono)
    have c: "n_errors (snd ?r) = n_errors s" using Cons.prems(2) goes_on(2) by simp
    from a b c have e1: "n_errors s1 = n_errors s" and e2: "n_errors (snd ?r) = n_errors s1"
      by simp_all
    have f: "fst ?r = None" using Cons.prems(1) goes_on(2) by simp
    have st: "present s1 (dest e m i url)" "\<forall>p. files s p \<noteq> None \<longrightarrow> files s1 p \<noteq> None"
      using attachment_step_clean [of e m i url s] goes_on(1) e1 by simp_all
    note ih = Cons.IH [OF f e2]
    from ih have keep1: "\<forall>p. files s1 p \<noteq> None \<longrightarrow> files (snd ?r) p \<noteq> None" by blast
    have "present (snd ?r) (dest e m i url)" using present_mono [OF keep1 st(1)] .
    moreover have "\<forall>p. files s p \<noteq> None \<longrightarrow> files (snd ?r) p \<noteq> None"
      using st(2) keep1 by blast
    ultimately show ?thesis using ih goes_on(2) by simp
  qed
qed

lemma url_loop_present:
  "list_all (present s) (dests_from e m i urls) \<Longrightarrow>
   fst (url_loop e m i urls s) = None \<and>
   files (snd (url_loop e m i urls s)) = files s \<and>
   requests (snd (url_loop e m i urls s)) = requests s \<and>
   downloadCount (snd (url_loop e m i urls s)) = downloadCount s \<and>
   skippedCount (snd (url_loop e m i urls s)) = skippedCount s + length urls \<and>
   n_errors (snd (url_loop e m i urls s)) = n_errors s \<and>
   isShuttingDown (snd (url_loop e m i urls s)) = isShuttingDown s"
proof (induction urls arbitrary: i s)
  case Nil
  then show ?case by simp
next
  case (Cons u us)
  from Cons.prems have p: "present s (dest e m i u)" by simp
  from attachment_step_present [OF p] obtain l where
    st: "attachment_step e m i u s = (None, (emit (Log l) s)\<lparr>skippedCount := skippedCount s + 1\<rparr>)"
    by blast
  let ?s1 = "(emit (Log l) s)\<lparr>skippedCount := skippedCount s + 1\<rparr>"
  have fs: "files ?s1 = files s" by simp
  have "list_all (present ?s1) (dests_from e m (Suc i) us)"
    using Cons.prems present_cong [OF fs] by (simp add: list_all_iff)
  from Cons.IH [OF this] show ?case by (simp add: st)
qed

lemma message_step_errors_mono: "n_errors s \<le> n_errors (snd (message_step e m s))"
  by (simp add: message_step_tasks url_loop_errors_mono)

lemma message_loop_errors_mono: "n_errors s \<le> n_errors (snd (message_loop e ms s))"
proof (induction ms arbitrary: s)
  case Nil
  then show ?case by simp
next
  case (Cons m ms)
  have a: "n_errors s \<le> n_errors (snd (message_step e m s))" by (rule message_step_errors_mono)
  show ?case
  proof (cases rule: message_loop_step [of s e m ms])
    case stopped
    then show ?thesis by simp
  next
    case (ended en s1)
    then show ?thesis using a by simp
  next
    case (goes_on s1)
    have "n_errors s1 \<le> n_errors (snd (message_loop e ms s1))" by (rule Cons.IH)
    then show ?thesis using a goes_on by simp
  qed
qed

text \<open>
  A run of the loop that starts with the flag down never reads it as set: when the loop
  returns it has gone through all the messages and logged the final line, and when SIGINT
  came the last thing that happened is the handler.
\<close>

lemma message_loop_flag_down:
  assumes "\<not> isShuttingDown s"
  shows "(fst (message_loop e ms s) = None \<longrightarrow>
            (\<exists>s'. \<not> isShuttingDown s' \<and> snd (message_loop e ms s) = emit (Log (complete_line s')) s')) \<and>
         (fst (message_loop e ms s) = Some Interrupted \<longrightarrow>
            (\<exists>s'. snd (message_loop e ms s) = on_SIGINT s')) \<and>
         (fst (message_loop e ms s) = Some Crashed \<longrightarrow> pendingError (snd (message_loop e ms s)))"
  using assms
proof (induction ms arbitrary: s)
  case Nil
  then show ?case by auto
next
  case (Cons m ms)
  show ?case
  proof (cases rule: message_loop_step [of s e m ms])
    case stopped
    then show ?thesis using Cons.prems by simp
  next
    case (ended en s1)
    then show ?thesis
      using url_loop_Interrupted [of e m 0 "tasks_of m" s] url_loop_Crashed [of e m 0 "tasks_of m" s]
      by (simp add: message_step_tasks)
  next
    case (goes_on s1)
    have "\<not> isShuttingDown s1"
      using url_loop_flag [of e m 0 "tasks_of m" s] goes_on(2) Cons.prems
      by (simp add: message_step_tasks)
    from Cons.IH [OF this] show ?thesis using goes_on(3) by simp
  qed
qed



lemma all_present_mono:
  assumes "\<forall>p. files s p \<noteq> None \<longrightarrow> files s' p \<noteq> None" and "list_all (present s) ds"
  shows "list_all (present s') ds"
  using assms(2) present_mono [OF assms(1)] by (simp add: list_all_iff)

lemma message_loop_clean:
  assumes "\<not> isShuttingDown s" and "fst (message_loop e ms s) = None"
    and "n_errors (snd (message_loop e ms s)) = n_errors s"
  shows "all_present e ms (snd (message_loop e ms s)) \<and>
         (\<forall>p. files s p \<noteq> None \<longrightarrow> files (snd (message_loop e ms s)) p \<noteq> None)"
  using assms
proof (induction ms arbitrary: s)
  case Nil
  then show ?case by (simp add: all_present_def)
next
  case (Cons m ms)
  show ?case
  proof (cases rule: message_loop_step [of s e m ms])
    case stopped
    then show ?thesis using Cons.prems(1) by simp
  next
    case (ended en s1)
    then show ?thesis using Cons.prems(2) by simp
  next
    case (goes_on s1)
    let ?r = "message_loop e ms s1"
    have a: "n_errors s \<le> n_errors s1"
      using message_step_errors_mono [of s e m] goes_on(2) by simp
    have b: "n_errors s1 \<le> n_errors (snd ?r)" by (rule message_loop_errors_mono)
    have c: "n_errors (snd ?r) = n_errors s" using Cons.prems(3) goes_on(3) by simp
    from a b c have e1: "n_errors s1 = n_errors s" and e2: "n_errors (snd ?r) = n_errors s1"
      by simp_all
    have f: "fst ?r = None" using Cons.prems(2) goes_on(3) by simp
    have u: "url_loop e m 0 (tasks_of m) s = (None, s1)"
      using goes_on(2) by (simp add: message_step_tasks)
    have st: "list_all (present s1) (dests_from e m 0 (tasks_of m))"
      "\<forall>p. files s p \<noteq> None \<longrightarrow> files s1 p \<noteq> None"
      using url_loop_clean [of e m 0 "tasks_of m" s] u e1 by simp_all
    have fl: "\<not> isShuttingDown s1"
      using url_loop_flag [of e m 0 "tasks_of m" s] u Cons.prems(1) by simp
    note ih = Cons.IH [OF fl f e2]
    from ih have keep1: "\<forall>p. files s1 p \<noteq> None \<longrightarrow> files (snd ?r) p \<noteq> None" by blast
    have "list_all (present (snd ?r)) (dests_from e m 0 (tasks_of m))"
      using all_present_mono [OF keep1 st(1)] .
    moreover have "\<forall>p. files s p \<noteq> None \<longrightarrow> files (snd ?r) p \<noteq> None"
      using st(2) keep1 by blast
    ultimately show ?thesis using ih goes_on(3) by (simp add: all_present_def)
  qed
qed

lemma all_present_files:
  assumes "files s' = files s"
  shows "all_present e ms s' = all_present e ms s"
proof -
  have "present s' = present s" using present_cong [OF assms] by (rule ext)
  then show ?thesis by (simp add: all_present_def)
qed

lemma message_loop_present:
  assumes "all_present e ms s" and "\<not> isShuttingDown s"
  shows "fst (message_loop e ms s) = None \<and>
   files (snd (message_loop e ms s)) = files s \<and>
   requests (snd (message_loop e ms s)) = requests s \<and>
   downloadCount (snd (message_loop e ms s)) = downloadCount s \<and>
   skippedCount (snd (message_loop e ms s)) = skippedCount s + (\<Sum>m\<leftarrow>ms. length (tasks_of m)) \<and>
   n_errors (snd (message_loop e ms s)) = n_errors s"
  using assms
proof (induction ms arbitrary: s)
  case Nil
  then show ?case by simp
next
  case (Cons m ms)
  from Cons.prems(1) have p: "list_all (present s) (dests_from e m 0 (tasks_of m))"
    and rest: "all_present e ms s" by (simp_all add: all_present_def)
  note st = url_loop_present [OF p, folded message_step_tasks]
  obtain s1 where s1: "message_step e m s = (None, s1)"
    using st by (cases "message_step e m s") simp
  have f: "files s1 = files s" using st s1 by simp
  have fl: "\<not> isShuttingDown s1" using st s1 Cons.prems(2) by simp
  have "all_present e ms s1" using rest all_present_files [OF f] by simp
  note ih = Cons.IH [OF this fl]
  have eq: "message_loop e (m # ms) s = message_loop e ms s1"
    using Cons.prems(2) s1 by simp
  show ?case unfolding eq using ih st s1 by simp
qed


subsection \<open>Evaluation of concrete runs\<close>

lemmas run_defs = message_step_def urls_of_def trim_def is_space_def attachment_step_def
  downloadFile_def in_flight_def wait_def createWriteStream_def can_open_def is_directory_def
  parent_dir_def on_SIGINT_def emit_def Let_def existsSync_def exists_at_def path_resolve_def
  path_join_def normalize_def downloadDir_def filename_of_def basename_def extname_def
  show_nat.simps digit_char_def sample_pathname_def fresh_def empty_disk_def ready_disk_def
  complete_line_def stopped_line_def

subsection \<open>Fetcher\<close>

text \<open>
  C1 (after a failed transfer no file is left at the destination) does not hold for the
  code. When the server answers with a status other than 200, \<^verbatim>\<open>downloadFile\<close> rejects and
  returns without unlinking: wherever the destination could be opened, the empty file made
  by \<^verbatim>\<open>fs.createWriteStream\<close> is still there afterwards, and, when nothing ends the process
  during the wait for the response, the promise is rejected with the status in its message.
\<close>

theorem downloadFile_bad_status_leaves_file:
  assumes "https_get e (requests s) url = Response statusCode body" and "statusCode \<noteq> 200"
    and "can_open s (normalize filepath)"
  shows "files (snd (downloadFile e url filepath s)) (normalize filepath) = Some (File []) \<and>
         (\<not> pendingError s \<and> \<not> sigint e (awaits s) \<longrightarrow>
            fst (downloadFile e url filepath s)
              = Rejected (''Failed to download: '' @ show_nat statusCode))"
proof -
  let ?s1 = "createWriteStream filepath s"
  have s1: "?s1 = s\<lparr>files := (files s)(normalize filepath \<mapsto> File [])\<rparr>"
    using assms(3) by (simp add: createWriteStream_def)
  show ?thesis
  proof (cases rule: in_flight_cases [of ?s1 e url])
    case crash
    then show ?thesis using assms(1) by (simp add: downloadFile_def Let_def) (simp add: s1)
  next
    case interrupt
    then show ?thesis using assms(1) by (simp add: downloadFile_def Let_def) (simp add: s1)
  next
    case go
    then show ?thesis using assms(1,2) by (simp add: downloadFile_def Let_def) (simp add: s1)
  qed
qed

theorem downloadFile_bad_status_leaves_file_witness:
  "can_open ready_disk ''downloads/7_1.jpg'' \<and>
   files (snd (downloadFile missing_env ''https://x/a.jpg'' ''downloads/7_1.jpg'' ready_disk))
     ''downloads/7_1.jpg'' = Some (File []) \<and>
   fst (downloadFile missing_env ''https://x/a.jpg'' ''downloads/7_1.jpg'' ready_disk)
     = Rejected ''Failed to download: 404''"
proof -
  have n: "normalize ''downloads/7_1.jpg'' = ''downloads/7_1.jpg''" by (simp add: normalize_def)
  have a: "https_get missing_env (requests ready_disk) ''https://x/a.jpg'' = Response 404 []"
    by (simp add: missing_env_def ready_disk_def empty_disk_def)
  have b: "(404::nat) \<noteq> 200" by simp
  have c: "can_open ready_disk (normalize ''downloads/7_1.jpg'')"
    unfolding n by (simp add: can_open_def is_directory_def parent_dir_def ready_disk_def empty_disk_def)
  have d: "\<not> pendingError ready_disk \<and> \<not> sigint missing_env (awaits ready_disk)"
    by (simp add: missing_env_def ready_disk_def empty_disk_def)
  have e: "show_nat 404 = ''404''" by (simp add: show_nat.simps digit_char_def)
  from downloadFile_bad_status_leaves_file [OF a b c] c d e n show ?thesis by simp
qed

subsection \<open>Attachment tasks\<close>

lemma split_where_agree:
  "\<forall>x\<in>set xs. P x = (x = c) \<Longrightarrow> split_where P xs = split_char c xs"
  by (induction xs) simp_all

lemma split_char_no_sep: "t \<in> set (split_char c xs) \<Longrightarrow> c \<notin> set t"
proof (induction xs arbitrary: t)
  case Nil
  then show ?case by simp
next
  case (Cons x xs)
  show ?case
  proof (cases "split_char c xs")
    case Nil
    with Cons.prems show ?thesis by (auto split: if_splits)
  next
    case (Cons p ps)
    have "c \<notin> set p" using Cons.IH [of p] Cons by simp
    moreover have "\<And>q. q \<in> set ps \<Longrightarrow> c \<notin> set q" using Cons.IH Cons by simp
    ultimately show ?thesis using Cons.prems Cons by (auto split: if_splits)
  qed
qed

lemma is_space_blank: "is_space (CHR 0x20)"
  by (simp add: is_space_def)

lemma urls_of_spec_tokens:
  assumes "\<forall>c\<in>set a. is_separator c \<longrightarrow> c = CHR 0x20"
  shows "urls_of a = spec_tokens a"
proof -
  have sp: "is_separator (CHR 0x20)"
    unfolding is_separator_def using is_space_blank by (rule disjI1)
  have sep: "\<forall>x\<in>set a. is_separator x = (x = CHR 0x20)"
  proof
    fix x assume "x \<in> set a"
    with assms have "is_separator x \<longrightarrow> x = CHR 0x20" by (rule bspec)
    with sp show "is_separator x = (x = CHR 0x20)" by metis
  qed
  have split: "split_where is_separator a = split_char CHR 0x20 a"
    using sep by (rule split_where_agree)
  have "\<forall>t\<in>set (split_char CHR 0x20 a). (trim t \<noteq> []) = (t \<noteq> [])"
  proof
    fix t assume t: "t \<in> set (split_char CHR 0x20 a)"
    then have sub: "set t \<subseteq> set a" by (rule split_char_pieces)
    from t have nosp: "CHR 0x20 \<notin> set t" by (rule split_char_no_sep)
    have "\<forall>c\<in>set t. \<not> is_space c"
    proof
      fix c assume c: "c \<in> set t"
      with sub have "c \<in> set a" by blast
      with assms have "is_separator c \<longrightarrow> c = CHR 0x20" by (rule bspec)
      moreover from c nosp have "c \<noteq> CHR 0x20" by metis
      ultimately have "\<not> is_separator c" by metis
      then show "\<not> is_space c" unfolding is_separator_def by (rule contrapos_nn) (rule disjI1)
    qed
    then show "(trim t \<noteq> []) = (t \<noteq> [])"
      by (cases t) (auto simp: trim_empty_iff)
  qed
  then have "filter (\<lambda>url. trim url \<noteq> []) (split_char CHR 0x20 a)
           = filter (\<lambda>t. t \<noteq> []) (split_char CHR 0x20 a)"
    by (simp cong: filter_cong)
  then show ?thesis by (simp add: urls_of_def spec_tokens_def split)
qed

text \<open>
  C3, as the code has it. The field is split at the single character SPACE and the pieces
  that are blank are dropped. A message whose field is missing, empty or blank is skipped
  and leaves the state as it is. For a field in which SPACE is the only white space and
  which has no comma, the tasks are exactly the non-empty tokens of the specification, in
  their order, the inner loop runs over them, and when it comes to its end every one of
  them has been accounted for once: logged as failed, counted as downloaded or counted as
  skipped.
\<close>

theorem attachment_tasks_are_the_space_separated_tokens:
  "(Attachments m = None \<longrightarrow> tasks_of m = [] \<and> message_step e m s = (None, s)) \<and>
   (\<forall>a. Attachments m = Some a \<and> trim a = [] \<longrightarrow>
        tasks_of m = [] \<and> message_step e m s = (None, s)) \<and>
   (\<forall>a. Attachments m = Some a \<and> (\<forall>c\<in>set a. is_separator c \<longrightarrow> c = CHR 0x20) \<longrightarrow>
        tasks_of m = spec_tokens a \<and>
        message_step e m s = url_loop e m 0 (spec_tokens a) s \<and>
        (fst (message_step e m s) = None \<longrightarrow>
           handled (snd (message_step e m s)) = handled s + length (spec_tokens a)))"
proof -
  have 1: "Attachments m = None \<longrightarrow> tasks_of m = [] \<and> message_step e m s = (None, s)"
    by (simp add: tasks_of_def message_step_def)
  have 2: "\<forall>a. Attachments m = Some a \<and> trim a = [] \<longrightarrow>
             tasks_of m = [] \<and> message_step e m s = (None, s)"
    by (simp add: tasks_of_def message_step_def urls_of_blank)
  have 3: "\<forall>a. Attachments m = Some a \<and> (\<forall>c\<in>set a. is_separator c \<longrightarrow> c = CHR 0x20) \<longrightarrow>
        tasks_of m = spec_tokens a \<and>
        message_step e m s = url_loop e m 0 (spec_tokens a) s \<and>
        (fst (message_step e m s) = None \<longrightarrow>
           handled (snd (message_step e m s)) = handled s + length (spec_tokens a))"
  proof (intro allI impI, elim conjE)
    fix a assume a: "Attachments m = Some a" and h: "\<forall>c\<in>set a. is_separator c \<longrightarrow> c = CHR 0x20"
    have t: "tasks_of m = spec_tokens a"
      using a urls_of_spec_tokens [OF h] by (simp add: tasks_of_def)
    have u: "message_step e m s = url_loop e m 0 (spec_tokens a) s"
      using t message_step_tasks [of e m s] by simp
    have v: "fst (message_step e m s) = None \<longrightarrow>
           handled (snd (message_step e m s)) = handled s + length (spec_tokens a)"
      using t message_step_handled [of e m s] by simp
    from t u v show "tasks_of m = spec_tokens a \<and>
        message_step e m s = url_loop e m 0 (spec_tokens a) s \<and>
        (fst (message_step e m s) = None \<longrightarrow>
           handled (snd (message_step e m s)) = handled s + length (spec_tokens a))"
      by (intro conjI)
  qed
  from 1 2 3 show ?thesis by (intro conjI)
qed

theorem attachment_tasks_are_the_space_separated_tokens_witness:
  "tasks_of spaced_message = [''https://x/a.jpg'', ''https://x/b.png''] \<and>
   spec_tokens ''https://x/a.jpg  https://x/b.png '' = [''https://x/a.jpg'', ''https://x/b.png'']"
proof -
  have a: "Attachments spaced_message = Some ''https://x/a.jpg  https://x/b.png ''"
    by (simp add: spaced_message_def)
  have h: "\<forall>c\<in>set ''https://x/a.jpg  https://x/b.png ''. is_separator c \<longrightarrow> c = CHR 0x20"
    by (simp add: is_separator_def is_space_def)
  have v: "spec_tokens ''https://x/a.jpg  https://x/b.png '' = [''https://x/a.jpg'', ''https://x/b.png'']"
    by (simp add: spec_tokens_def is_separator_def is_space_def)
  from attachment_tasks_are_the_space_separated_tokens [of spaced_message steady_env empty_disk] a h
  have "tasks_of spaced_message = spec_tokens ''https://x/a.jpg  https://x/b.png ''" by blast
  with v show ?thesis by simp
qed

text \<open>
  C3 as stated fails where another separator is used: two URLs separated by a TAB are two
  tokens for the specification and one task for the code.
\<close>

theorem tab_separated_tokens_counterexample:
  "length (spec_tokens (''https://x/a.jpg'' @ [CHR 0x09] @ ''https://x/b.png'')) = 2 \<and>
   length (tasks_of \<lparr>ID = ''7'', Attachments = Some (''https://x/a.jpg'' @ [CHR 0x09] @ ''https://x/b.png'')\<rparr>) = 1"
  by (simp add: spec_tokens_def is_separator_def is_space_def tasks_of_def urls_of_def trim_def)

subsection \<open>Pacing\<close>

text \<open>
  C6 (the pacing wait follows every attempt that reached the network) does not hold for
  the code. One message with two attachments on a disk with the directory of the
  downloads; the server answers the first request with status 404 and the second with the
  image. The second request follows the error line of the first at once: the only timer of
  the run is the one after the download that succeeded.
\<close>

theorem no_wait_after_failed_transfer:
  "message_loop missing_env two_attachments ready_disk =
     (None,
      \<lparr>files = [''downloads'' \<mapsto> Dir, ''downloads/7_1.jpg'' \<mapsto> File [],
                ''downloads/7_2.png'' \<mapsto> File ''image''],
       trace = [Request ''https://x/a.jpg'',
                LogError ''Error downloading https://x/a.jpg: Failed to download: 404'',
                Request ''https://x/b.png'',
                Log ''Downloaded: downloads/7_2.png'',
                Sleep 700,
                Log ''\<newline>Download complete! Total files downloaded: 1, skipped: 0''],
       requests = 2, awaits = 3, isShuttingDown = False, pendingError = False,
       downloadCount = 1, skippedCount = 0\<rparr>)"
  by (simp add: missing_env_def two_attachments_def run_defs)

subsection \<open>Failures of single attachments\<close>

text \<open>
  C8 (no failure of a single attachment ends the run) does not hold for the code. In the
  first example the response to the first attachment has status 200 and its body stalls.
  Nothing settles the promise of \<^verbatim>\<open>downloadFile\<close>: the run waits for ever after its first
  request, nothing is logged and the second attachment is never asked for. In the second
  example the identifier of the message has a slash, so the file of the first attachment
  cannot be opened; the \<^verbatim>\<open>error\<close> event of the write stream has no listener and ends the
  process while it waits for the response, before anything is logged.
\<close>

theorem attachment_failure_ends_the_run:
  "message_loop stalling_env two_attachments ready_disk =
     (Some Hung,
      \<lparr>files = [''downloads'' \<mapsto> Dir, ''downloads/7_1.jpg'' \<mapsto> File ''ima''],
       trace = [Request ''https://x/a.jpg''],
       requests = 1, awaits = 1, isShuttingDown = False, pendingError = False,
       downloadCount = 0, skippedCount = 0\<rparr>) \<and>
   message_loop steady_env nested_message ready_disk =
     (Some Crashed,
      \<lparr>files = [''downloads'' \<mapsto> Dir],
       trace = [Request ''https://x/a.jpg''],
       requests = 1, awaits = 0, isShuttingDown = False, pendingError = True,
       downloadCount = 0, skippedCount = 0\<rparr>)"
  by (simp add: stalling_env_def steady_env_def two_attachments_def nested_message_def run_defs)

subsection \<open>Cancellation\<close>

text \<open>
  C9 (a flag set before record \<open>k\<close> stops the run there, with the counters reported) does
  not hold for the code: the only assignment to the flag is in the handler of SIGINT,
  which ends the process in its next statement, so the loop never reads the flag as set.
  In a run that starts with the flag down, whenever the loop returns it has gone through
  all the messages and logged the final line; and when SIGINT came the last thing that
  happened is the handler: its line is the last of the trace and no counters are
  reported.
\<close>

theorem sigint_never_reaches_the_flag_test:
  assumes "\<not> isShuttingDown s"
  shows "(fst (message_loop e ms s) = None \<longrightarrow>
            (\<exists>s'. \<not> isShuttingDown s' \<and>
                  snd (message_loop e ms s) = emit (Log (complete_line s')) s')) \<and>
         (fst (message_loop e ms s) = Some Interrupted \<longrightarrow>
            (\<exists>s'. snd (message_loop e ms s) = on_SIGINT s'))"
  using message_loop_flag_down [OF assms, of e ms] by blast

text \<open>
  Five messages; SIGINT comes while the process waits for the response to the attachment
  of the third. The first two records are done, the file of the third is left empty, and
  the run ends with the line of the handler: nothing reports the two downloads.
\<close>

theorem sigint_never_reaches_the_flag_test_witness:
  "\<not> isShuttingDown ready_disk \<and>
   (\<exists>s'. snd (message_loop interrupt_env five_messages ready_disk) = on_SIGINT s') \<and>
   message_loop interrupt_env five_messages ready_disk =
     (Some Interrupted,
      \<lparr>files = [''downloads'' \<mapsto> Dir, ''downloads/1_1.jpg'' \<mapsto> File ''image'',
                ''downloads/2_1.png'' \<mapsto> File ''image'', ''downloads/3_1.jpg'' \<mapsto> File []],
       trace = [Request ''https://x/a.jpg'', Log ''Downloaded: downloads/1_1.jpg'', Sleep 700,
                Request ''https://x/b.png'', Log ''Downloaded: downloads/2_1.png'', Sleep 700,
                Request ''https://x/a.jpg'', Log ''\<newline>\<newline>Download stopped by user.''],
       requests = 3, awaits = 4, isShuttingDown = True, pendingError = False,
       downloadCount = 2, skippedCount = 0\<rparr>)"
proof -
  have a: "\<not> isShuttingDown ready_disk" by (simp add: ready_disk_def empty_disk_def)
  have b: "message_loop interrupt_env five_messages ready_disk =
     (Some Interrupted,
      \<lparr>files = [''downloads'' \<mapsto> Dir, ''downloads/1_1.jpg'' \<mapsto> File ''image'',
                ''downloads/2_1.png'' \<mapsto> File ''image'', ''downloads/3_1.jpg'' \<mapsto> File []],
       trace = [Request ''https://x/a.jpg'', Log ''Downloaded: downloads/1_1.jpg'', Sleep 700,
                Request ''https://x/b.png'', Log ''Downloaded: downloads/2_1.png'', Sleep 700,
                Request ''https://x/a.jpg'', Log ''\<newline>\<newline>Download stopped by user.''],
       requests = 3, awaits = 4, isShuttingDown = True, pendingError = False,
       downloadCount = 2, skippedCount = 0\<rparr>)"
    by (simp add: interrupt_env_def five_messages_def run_defs)
  then have "fst (message_loop interrupt_env five_messages ready_disk) = Some Interrupted"
    by simp
  with sigint_never_reaches_the_flag_test [OF a, of interrupt_env five_messages]
  have "\<exists>s'. snd (message_loop interrupt_env five_messages ready_disk) = on_SIGINT s'" by blast
  with a b show ?thesis by blast
qed

subsection \<open>Skipping what exists\<close>

lemma n_errors_reset [simp]:
  "n_errors (s\<lparr>downloadCount := a, skippedCount := b\<rparr>) = n_errors s"
  by (simp add: n_errors_def)

lemma all_present_reset [simp]:
  "all_present e ms (s\<lparr>downloadCount := a, skippedCount := b\<rparr>) = all_present e ms s"
proof -
  have "files (s\<lparr>downloadCount := a, skippedCount := b\<rparr>) = files s" by simp
  then show ?thesis by (rule all_present_files)
qed

text \<open>
  C5, as the code has it. An attachment whose destination exists is counted as skipped and
  nothing else happens: no request, no change of the files, no download counted. When the
  first run came to its end and logged no error (it was not cancelled, every URL was
  parsed and every transfer that was tried succeeded), a second run over the same messages
  on the state the first one left comes to its end too, makes no request, leaves the files
  as they are, downloads nothing and counts every attachment as skipped.
\<close>

theorem second_run_skips_everything:
  assumes noflag: "\<not> isShuttingDown s"
    and ended: "fst (message_loop e ms (s\<lparr>downloadCount := 0, skippedCount := 0\<rparr>)) = None"
    and clean: "n_errors (snd (message_loop e ms (s\<lparr>downloadCount := 0, skippedCount := 0\<rparr>)))
                  = n_errors s"
  shows "(let s1 = snd (message_loop e ms (s\<lparr>downloadCount := 0, skippedCount := 0\<rparr>));
              r2 = message_loop e ms (s1\<lparr>downloadCount := 0, skippedCount := 0\<rparr>);
              s2 = snd r2
          in fst r2 = None \<and> requests s2 = requests s1 \<and> files s2 = files s1 \<and>
             downloadCount s2 = 0 \<and> skippedCount s2 = (\<Sum>m\<leftarrow>ms. length (tasks_of m)) \<and>
             n_errors s2 = n_errors s1)
         \<and> (present s (dest e m i url) \<longrightarrow>
              fst (attachment_step e m i url s) = None \<and>
              requests (snd (attachment_step e m i url s)) = requests s \<and>
              files (snd (attachment_step e m i url s)) = files s \<and>
              downloadCount (snd (attachment_step e m i url s)) = downloadCount s \<and>
              skippedCount (snd (attachment_step e m i url s)) = skippedCount s + 1)"
proof -
  let ?s0 = "s\<lparr>downloadCount := 0, skippedCount := 0\<rparr>"
  let ?s1 = "snd (message_loop e ms ?s0)"
  let ?r1 = "?s1\<lparr>downloadCount := 0, skippedCount := 0\<rparr>"
  have f0: "\<not> isShuttingDown ?s0" using noflag by simp
  from clean have c0: "n_errors ?s1 = n_errors ?s0" by simp
  from message_loop_clean [OF f0 ended c0] have "all_present e ms ?s1" by simp
  then have ap: "all_present e ms ?r1" by simp
  from message_loop_flag_down [OF f0, of e ms] ended
  have "\<not> isShuttingDown ?s1" by auto
  then have f1: "\<not> isShuttingDown ?r1" by simp
  from message_loop_present [OF ap f1]
  have run: "fst (message_loop e ms ?r1) = None \<and>
        requests (snd (message_loop e ms ?r1)) = requests ?s1 \<and>
        files (snd (message_loop e ms ?r1)) = files ?s1 \<and>
        downloadCount (snd (message_loop e ms ?r1)) = 0 \<and>
        skippedCount (snd (message_loop e ms ?r1)) = (\<Sum>m\<leftarrow>ms. length (tasks_of m)) \<and>
        n_errors (snd (message_loop e ms ?r1)) = n_errors ?s1"
    by simp
  have stp: "fst (attachment_step e m i url s) = None \<and>
              requests (snd (attachment_step e m i url s)) = requests s \<and>
              files (snd (attachment_step e m i url s)) = files s \<and>
              downloadCount (snd (attachment_step e m i url s)) = downloadCount s \<and>
              skippedCount (snd (attachment_step e m i url s)) = skippedCount s + 1"
    if "present s (dest e m i url)"
    using attachment_step_present [OF that] by auto
  from run stp show ?thesis by (simp add: Let_def)
qed

theorem second_run_skips_everything_witness:
  "(let s1 = snd (message_loop steady_env two_attachments ready_disk);
        s2 = snd (message_loop steady_env two_attachments (s1\<lparr>downloadCount := 0, skippedCount := 0\<rparr>))
    in downloadCount s1 = 2 \<and> requests s2 = requests s1 \<and> downloadCount s2 = 0 \<and> skippedCount s2 = 2)"
proof -
  have noflag: "\<not> isShuttingDown ready_disk" by (simp add: ready_disk_def empty_disk_def)
  have fr: "ready_disk\<lparr>downloadCount := 0, skippedCount := 0\<rparr> = ready_disk"
    by (simp add: ready_disk_def empty_disk_def)
  have first: "fst (message_loop steady_env two_attachments ready_disk) = None \<and>
      downloadCount (snd (message_loop steady_env two_attachments ready_disk)) = 2 \<and>
      n_errors (snd (message_loop steady_env two_attachments ready_disk)) = n_errors ready_disk"
    by (simp add: steady_env_def two_attachments_def run_defs n_errors_def)
  have tasks: "(\<Sum>m\<leftarrow>two_attachments. length (tasks_of m)) = 2"
    by (simp add: two_attachments_def tasks_of_def urls_of_def trim_def is_space_def)
  from second_run_skips_everything [of ready_disk steady_env two_attachments, unfolded fr,
      OF noflag conjunct1 [OF first] conjunct2 [OF conjunct2 [OF first]]] first tasks
  show ?thesis by (simp add: Let_def)
qed

text \<open>
  C5 as stated fails. One message with one attachment; the first request ends in a
  transport error (the file is unlinked), later requests succeed. The second run over the
  same message and the same directory makes a request and downloads the file: one new
  download, nothing skipped.
\<close>

theorem second_run_downloads_counterexample:
  "(let s1 = snd (message_loop flaky_env one_message ready_disk);
        s2 = snd (message_loop flaky_env one_message (s1\<lparr>downloadCount := 0, skippedCount := 0\<rparr>))
    in downloadCount s2 = 1 \<and> skippedCount s2 = 0 \<and> requests s2 = Suc (requests s1))"
  by (simp add: flaky_env_def one_message_def run_defs)

subsection \<open>Exit status\<close>

lemma messagesPath_eq: "path_join dataDir ''messages.json'' = ''data/messages.json''"
  by (simp add: path_join_def dataDir_def normalize_def)

lemma messagesPath_normal: "normalize ''data/messages.json'' = ''data/messages.json''"
  by (simp add: normalize_def)










subsection \<open>File names\<close>























subsection \<open>Identifiers\<close>

lemmas parse_defs = JSON_parse_def lex.simps parse_string.simps parse_number_def int_part_def
  frac_part_def exp_part_def is_json_ws_def is_digit_def tok_def cons_result_def

lemma spaced_export_fixed: "fixedData spaced_export = spaced_export"
  by (simp add: spaced_export_def fixedData.simps match_ID_def is_space_def is_digit_def)

lemma spaced_quoted_export_fixed: "fixedData spaced_quoted_export = spaced_quoted_export"
  by (simp add: spaced_quoted_export_def fixedData.simps match_ID_def is_space_def is_digit_def)

lemma spaced_export_parsed:
  "JSON_parse spaced_export =
     Inr (JArr [JObj [(''ID'', JNum ''100000000000000001''),
                      (''Attachments'', JStr ''https://x/a.jpg'')]])"
  by (simp add: spaced_export_def parse_defs)

lemma spaced_quoted_export_parsed:
  "JSON_parse spaced_quoted_export =
     Inr (JArr [JObj [(''ID'', JStr ''100000000000000001''),
                      (''Attachments'', JStr ''https://x/a.jpg'')]])"
  by (simp add: spaced_quoted_export_def parse_defs)

lemma nested_export_read:
  "readFile ''data/messages.json'' (fresh nested_export) =
     Inr (JArr [JObj [(''ID'', JStr ''a/b''),
                      (''Attachments'', JStr ''https://x/a.jpg https://x/b.png'')]])"
  by (simp add: readFile_def fresh_def empty_disk_def messagesPath_normal nested_export_def
      fixedData.simps match_ID_def is_space_def parse_defs)

lemma spaced_export_read:
  "readFile ''data/messages.json'' (fresh spaced_export) =
     Inr (JArr [JObj [(''ID'', JNum ''100000000000000001''),
                      (''Attachments'', JStr ''https://x/a.jpg'')]])"
  by (simp add: readFile_def fresh_def empty_disk_def messagesPath_normal spaced_export_fixed
      spaced_export_parsed)

lemma spaced_quoted_export_read:
  "readFile ''data/messages.json'' (fresh spaced_quoted_export) =
     Inr (JArr [JObj [(''ID'', JStr ''100000000000000001''),
                      (''Attachments'', JStr ''https://x/a.jpg'')]])"
  by (simp add: readFile_def fresh_def empty_disk_def messagesPath_normal
      spaced_quoted_export_fixed spaced_quoted_export_parsed)

text \<open>
  C2 (a numeric identifier is quoted before the text is parsed and comes out as the string
  of the same digits) does not hold for the code. The expression of the pass wants the
  colon right after the key. In an export that has a space before the colon the pass finds
  nothing to replace: the text stays as it is and the identifier of 18 digits reaches
  \<^verbatim>\<open>JSON.parse\<close> as a number, where JavaScript keeps 53 bits of it.
\<close>

theorem spaced_numeric_ID_stays_a_number:
  "fixedData spaced_export = spaced_export \<and>
   readFile ''data/messages.json'' (fresh spaced_export) =
     Inr (JArr [JObj [(''ID'', JNum ''100000000000000001''),
                      (''Attachments'', JStr ''https://x/a.jpg'')]]) \<and>
   messages_of (JArr [JObj [(''ID'', JNum ''100000000000000001''),
                      (''Attachments'', JStr ''https://x/a.jpg'')]]) = None"
  by (simp add: spaced_export_fixed spaced_export_read get_field_def)

text \<open>
  C10 (an export with the identifiers as strings and the same export with the identifiers
  as numbers are read as the same records) does not hold for the code. The pass leaves the
  export with the quoted identifier as it is, but in the same export with the identifier
  as a number and a space before the colon it leaves the number too: the first is read
  with the identifier as a string, the second with the identifier as a number.
\<close>

theorem quoted_and_numeric_exports_differ:
  "fixedData spaced_quoted_export = spaced_quoted_export \<and>
   readFile ''data/messages.json'' (fresh spaced_quoted_export) =
     Inr (JArr [JObj [(''ID'', JStr ''100000000000000001''),
                      (''Attachments'', JStr ''https://x/a.jpg'')]]) \<and>
   readFile ''data/messages.json'' (fresh spaced_export) =
     Inr (JArr [JObj [(''ID'', JNum ''100000000000000001''),
                      (''Attachments'', JStr ''https://x/a.jpg'')]]) \<and>
   readFile ''data/messages.json'' (fresh spaced_export)
     \<noteq> readFile ''data/messages.json'' (fresh spaced_quoted_export)"
  by (simp add: spaced_quoted_export_fixed spaced_quoted_export_read spaced_export_read)

subsection \<open>A run that leaves with status 1\<close>

text \<open>
  The script on an export whose only message has a slash in its identifier: the directory
  of its file is not there, the write stream cannot open the file, and the process ends
  with an uncaught exception while it waits for the first response.
\<close>

lemma script_open_failure:
  "script steady_env (fresh nested_export) =
     (Exit 1,
      \<lparr>files = [''data'' \<mapsto> Dir, ''data/messages.json'' \<mapsto> File nested_export,
                ''downloads'' \<mapsto> Dir],
       trace = [Request ''https://x/a.jpg''],
       requests = 1, awaits = 0, isShuttingDown = False, pendingError = True,
       downloadCount = 0, skippedCount = 0\<rparr>)"
proof -
  have m: "messages_of (JArr [JObj [(''ID'', JStr ''a/b''),
                      (''Attachments'', JStr ''https://x/a.jpg https://x/b.png'')]])
            = Some nested_message"
    by (simp add: nested_message_def get_field_def)
  have s: "fresh nested_export\<lparr>isShuttingDown := False, pendingError := False\<rparr>
            = fresh nested_export"
    by (simp add: fresh_def empty_disk_def)
  have c1: "createDirIfNotExists dataDir (fresh nested_export) = Inr (fresh nested_export)"
    by (simp add: createDirIfNotExists_def existsSync_def exists_at_def dataDir_def
        normalize_def fresh_def empty_disk_def)
  have x: "existsSync (fresh nested_export) ''data/messages.json''"
    by (simp add: existsSync_def exists_at_def messagesPath_normal fresh_def empty_disk_def)
  have c2: "createDirIfNotExists downloadDir (fresh nested_export) =
              Inr (fresh nested_export
                     \<lparr>files := [''data'' \<mapsto> Dir, ''data/messages.json'' \<mapsto> File nested_export,
                                ''downloads'' \<mapsto> Dir]\<rparr>)"
    by (simp add: createDirIfNotExists_def existsSync_def exists_at_def downloadDir_def
        normalize_def mkdirSync_def fresh_def empty_disk_def)
  have l: "message_loop steady_env nested_message
             (fresh nested_export
                \<lparr>files := [''data'' \<mapsto> Dir, ''data/messages.json'' \<mapsto> File nested_export,
                           ''downloads'' \<mapsto> Dir],
                 downloadCount := 0, skippedCount := 0\<rparr>) =
     (Some Crashed,
      \<lparr>files = [''data'' \<mapsto> Dir, ''data/messages.json'' \<mapsto> File nested_export,
                ''downloads'' \<mapsto> Dir],
       trace = [Request ''https://x/a.jpg''],
       requests = 1, awaits = 0, isShuttingDown = False, pendingError = True,
       downloadCount = 0, skippedCount = 0\<rparr>)"
    by (simp add: steady_env_def nested_message_def run_defs)
  show ?thesis
    by (simp add: script_def s downloadAllAttachments_def c1 messagesPath_eq x nested_export_read
        m c2 l Let_def del: messages_of.simps message_loop.simps)
qed

end
